theory Spec2Isabelle
  imports Main "HOL-Library.Word" "HOL-Library.Char_ord" "HOL-Library.List_Lexorder"
    "HOL-Library.AList"
begin

section \<open>Byte strings\<close>

text \<open>
  A \<^verbatim>\<open>std::string\<close> is a \<^typ>\<open>string\<close>: a list of bytes. Its \<^verbatim>\<open>operator<\<close> compares
  lexicographically by unsigned byte, which is the order of \<^typ>\<open>char list\<close> given by
  the lexicographic order on lists over the order of \<^typ>\<open>char\<close> by code point.
\<close>

definition digit :: "nat \<Rightarrow> char" where
  "digit d = char_of (48 + d)"

text \<open>\<^verbatim>\<open>std::to_string\<close> on an unsigned integer: its decimal digits.\<close>

function to_string :: "nat \<Rightarrow> string" where
  "to_string n = (if n < 10 then [digit n] else to_string (n div 10) @ [digit (n mod 10)])"
  by pat_completeness auto
termination
  by (relation "measure id") auto

declare to_string.simps [simp del]

section \<open>The ordered map \<^verbatim>\<open>std::map<std::string, std::string>\<close>\<close>

text \<open>
  The map is the list of its entries in ascending key order, which is the order its
  iterators walk. An iterator is the suffix of the entries that it has still to visit;
  \<^verbatim>\<open>end()\<close> is the empty suffix.
\<close>

type_synonym ordered_map = "(string \<times> string) list"

fun map_find :: "string \<Rightarrow> ordered_map \<Rightarrow> string option" where
  "map_find k [] = None"
| "map_find k ((k', v') # m) = (if k = k' then Some v' else map_find k m)"

text \<open>\<^verbatim>\<open>m[k] = v\<close>: inserts the key or overwrites its value.\<close>

fun map_assign :: "string \<Rightarrow> string \<Rightarrow> ordered_map \<Rightarrow> ordered_map" where
  "map_assign k v [] = [(k, v)]"
| "map_assign k v ((k', v') # m) =
     (if k < k' then (k, v) # (k', v') # m
      else if k = k' then (k, v) # m
      else (k', v') # map_assign k v m)"

text \<open>\<^verbatim>\<open>m.insert({k, v})\<close>: inserts the key only if it is absent; a present key keeps its value.\<close>

fun map_insert :: "string \<Rightarrow> string \<Rightarrow> ordered_map \<Rightarrow> ordered_map" where
  "map_insert k v [] = [(k, v)]"
| "map_insert k v ((k', v') # m) =
     (if k < k' then (k, v) # (k', v') # m
      else if k = k' then (k', v') # m
      else (k', v') # map_insert k v m)"

text \<open>\<^verbatim>\<open>m.insert(first, last)\<close>: inserts each element of the range in turn.\<close>

fun map_insert_range :: "(string \<times> string) list \<Rightarrow> ordered_map \<Rightarrow> ordered_map" where
  "map_insert_range [] m = m"
| "map_insert_range ((k, v) # kvs) m = map_insert_range kvs (map_insert k v m)"

fun map_erase :: "string \<Rightarrow> ordered_map \<Rightarrow> ordered_map" where
  "map_erase k [] = []"
| "map_erase k ((k', v') # m) = (if k = k' then m else (k', v') # map_erase k m)"

text \<open>\<^verbatim>\<open>lower_bound(k)\<close>: the first entry whose key is not less than \<open>k\<close>.\<close>

fun lower_bound :: "string \<Rightarrow> ordered_map \<Rightarrow> ordered_map" where
  "lower_bound k [] = []"
| "lower_bound k ((k', v') # m) = (if k' < k then lower_bound k m else (k', v') # m)"

text \<open>\<^verbatim>\<open>upper_bound(k)\<close>: the first entry whose key is greater than \<open>k\<close>.\<close>

fun upper_bound :: "string \<Rightarrow> ordered_map \<Rightarrow> ordered_map" where
  "upper_bound k [] = []"
| "upper_bound k ((k', v') # m) = (if k < k' then (k', v') # m else upper_bound k m)"

section \<open>The serialized engine: \<^verbatim>\<open>KVTManagerWrapperSimple\<close>\<close>

text \<open>
  The fields of the class. The unordered map \<open>write_set\<close> is an association list with
  distinct keys and the unordered set \<open>delete_set\<close> a list without duplicates, both in
  insertion order (the containers leave the order of iteration open, and no property
  below depends on it). The mutex is not part of the
  state: every operation holds it from entry to return.
\<close>

record kvt_state =
  table_data :: ordered_map
  table_to_id :: "string \<rightharpoonup> 32 word"
  next_table_id :: "64 word"
  next_tx_id :: "64 word"
  current_tx_id :: "64 word"
  write_set :: "(string \<times> string) list"
  delete_set :: "string list"

text \<open>The state the constructor leaves.\<close>

definition init_state :: kvt_state where
  "init_state = \<lparr>table_data = [], table_to_id = Map.empty, next_table_id = 1,
     next_tx_id = 1, current_tx_id = 0, write_set = [], delete_set = []\<rparr>"

definition make_table_key :: "string \<Rightarrow> string \<Rightarrow> string" where
  "make_table_key table_name key = table_name @ [CHR 0x00] @ key"

text \<open>
  An operation returns its result and the state it leaves. \<open>Inl msg\<close> is the failure
  return (\<^verbatim>\<open>false\<close>, or the id 0) with \<open>msg\<close> written to \<^verbatim>\<open>error_msg\<close>; \<open>Inr x\<close> is
  the success return, \<open>x\<close> being the value written to the output parameter, if any.
\<close>

definition tx_not_found :: "64 word \<Rightarrow> string" where
  "tx_not_found tx_id = ''Transaction '' @ to_string (unat tx_id) @ '' not found''"

definition key_not_found :: "string \<Rightarrow> string" where
  "key_not_found key = ''Key '' @ key @ '' not found''"

definition create_table :: "string \<Rightarrow> string \<Rightarrow> kvt_state \<Rightarrow> (string + 64 word) \<times> kvt_state" where
  "create_table table_name partition_method s =
     (if table_to_id s table_name \<noteq> None
      then (Inl (''Table '' @ table_name @ '' already exists''), s)
      else (Inr (next_table_id s + 1 - 1),
            s\<lparr>table_to_id := (table_to_id s)(table_name \<mapsto> ucast (next_table_id s)),
              next_table_id := next_table_id s + 1\<rparr>))"

definition start_transaction :: "kvt_state \<Rightarrow> (string + 64 word) \<times> kvt_state" where
  "start_transaction s =
     (if current_tx_id s \<noteq> 0
      then (Inl ''A transaction is already running'', s)
      else (Inr (next_tx_id s),
            s\<lparr>current_tx_id := next_tx_id s, next_tx_id := next_tx_id s + 1\<rparr>))"

definition commit_transaction :: "64 word \<Rightarrow> kvt_state \<Rightarrow> (string + unit) \<times> kvt_state" where
  "commit_transaction tx_id s =
     (if current_tx_id s \<noteq> tx_id
      then (Inl (tx_not_found tx_id), s)
      else (Inr (),
            s\<lparr>table_data :=
                 foldl (\<lambda>m key. map_erase key m)
                   (map_insert_range (write_set s) (table_data s)) (delete_set s),
              write_set := [], delete_set := [], current_tx_id := 0\<rparr>))"

definition rollback_transaction :: "64 word \<Rightarrow> kvt_state \<Rightarrow> (string + unit) \<times> kvt_state" where
  "rollback_transaction tx_id s =
     (if current_tx_id s \<noteq> tx_id
      then (Inl (tx_not_found tx_id), s)
      else (Inr (), s\<lparr>write_set := [], delete_set := [], current_tx_id := 0\<rparr>))"

definition get :: "64 word \<Rightarrow> string \<Rightarrow> string \<Rightarrow> kvt_state \<Rightarrow> (string + string) \<times> kvt_state" where
  "get tx_id table_name key s =
     (if tx_id \<noteq> 0 \<and> current_tx_id s \<noteq> tx_id
      then (Inl (tx_not_found tx_id), s)
      else
        let table_key = make_table_key table_name key in
        if tx_id \<noteq> 0 \<and> map_of (write_set s) table_key \<noteq> None
        then (Inr (the (map_of (write_set s) table_key)), s)
        else if tx_id \<noteq> 0 \<and> table_key \<in> set (delete_set s)
        then (Inl (key_not_found key), s)
        else
          (case map_find table_key (table_data s) of
             None \<Rightarrow> (Inl (key_not_found key), s)
           | Some v \<Rightarrow> (Inr v, s)))"

definition set_kvt :: "64 word \<Rightarrow> string \<Rightarrow> string \<Rightarrow> string \<Rightarrow> kvt_state \<Rightarrow> (string + unit) \<times> kvt_state" where
  "set_kvt tx_id table_name key val s =
     (if tx_id \<noteq> 0 \<and> current_tx_id s \<noteq> tx_id
      then (Inl (tx_not_found tx_id), s)
      else
        let table_key = make_table_key table_name key in
        if tx_id = 0
        then (Inr (), s\<lparr>table_data := map_assign table_key val (table_data s)\<rparr>)
        else (Inr (), s\<lparr>delete_set := removeAll table_key (delete_set s),
                        write_set := AList.update table_key val (write_set s)\<rparr>))"

definition del :: "64 word \<Rightarrow> string \<Rightarrow> string \<Rightarrow> kvt_state \<Rightarrow> (string + unit) \<times> kvt_state" where
  "del tx_id table_name key s =
     (if tx_id \<noteq> 0 \<and> current_tx_id s \<noteq> tx_id
      then (Inl (tx_not_found tx_id), s)
      else
        let table_key = make_table_key table_name key in
        if tx_id = 0
        then (Inr (), s\<lparr>table_data := map_erase table_key (table_data s)\<rparr>)
        else (Inr (), s\<lparr>delete_set := List.insert table_key (delete_set s),
                        write_set := AList.delete table_key (write_set s)\<rparr>))"

text \<open>
  The loop of \<open>scan\<close>. \<open>itr\<close> is the iterator, \<open>end_len\<close> the number of entries from
  \<open>end_itr\<close> to the end of the map: both iterators walk the same map, so they are equal
  exactly when as many entries remain after each. An iterator that has reached \<^verbatim>\<open>end()\<close>
  without meeting \<open>end_itr\<close> is dereferenced by the source, which is undefined: \<open>None\<close>.
\<close>

fun scan_loop :: "nat \<Rightarrow> nat \<Rightarrow> (string \<times> string) list \<Rightarrow> string list \<Rightarrow> ordered_map \<Rightarrow>
    (string \<times> string) list \<Rightarrow> (string \<times> string) list option" where
  "scan_loop end_len num_item_limit ws ds [] results =
     (if 0 \<noteq> end_len \<and> length results < num_item_limit then None else Some results)"
| "scan_loop end_len num_item_limit ws ds ((k, v) # itr) results =
     (if length ((k, v) # itr) \<noteq> end_len \<and> length results < num_item_limit
      then
        scan_loop end_len num_item_limit ws ds itr
          (if k \<notin> set ds
           then (if map_of ws k \<noteq> None
                 then results @ [(k, the (map_of ws k))]
                 else results @ [(k, v)])
           else results)
      else Some results)"

definition scan :: "64 word \<Rightarrow> string \<Rightarrow> string \<Rightarrow> string \<Rightarrow> nat \<Rightarrow> kvt_state \<Rightarrow>
    ((string + (string \<times> string) list) \<times> kvt_state) option" where
  "scan tx_id table_name key_start key_end num_item_limit s =
     (if tx_id = 0 \<and> current_tx_id s \<noteq> tx_id
      then Some (Inl (tx_not_found tx_id), s)
      else
        let table_key = make_table_key table_name key_start;
            table_key_end = make_table_key table_name key_end;
            itr = lower_bound table_key (table_data s);
            end_itr = upper_bound table_key_end (table_data s)
        in
          (case scan_loop (length end_itr) num_item_limit (write_set s) (delete_set s) itr [] of
             None \<Rightarrow> None
           | Some results \<Rightarrow> Some (Inr results, s)))"

text \<open>
  The states the engine can be in: the constructor's state, and every state an
  operation of the interface leaves when called in such a state with any arguments.
\<close>

inductive reachable :: "kvt_state \<Rightarrow> bool" where
  reach_init: "reachable init_state"
| reach_create_table:
    "reachable s \<Longrightarrow> reachable (snd (create_table table_name partition_method s))"
| reach_start_transaction: "reachable s \<Longrightarrow> reachable (snd (start_transaction s))"
| reach_commit_transaction: "reachable s \<Longrightarrow> reachable (snd (commit_transaction tx_id s))"
| reach_rollback_transaction:
    "reachable s \<Longrightarrow> reachable (snd (rollback_transaction tx_id s))"
| reach_get: "reachable s \<Longrightarrow> reachable (snd (get tx_id table_name key s))"
| reach_set: "reachable s \<Longrightarrow> reachable (snd (set_kvt tx_id table_name key val s))"
| reach_del: "reachable s \<Longrightarrow> reachable (snd (del tx_id table_name key s))"
| reach_scan:
    "reachable s \<Longrightarrow>
     scan tx_id table_name key_start key_end num_item_limit s = Some (r, s') \<Longrightarrow> reachable s'"

text \<open>No key is buffered both for writing and for deletion.\<close>

definition sets_disjoint :: "kvt_state \<Rightarrow> bool" where
  "sets_disjoint s \<longleftrightarrow> fst ` set (write_set s) \<inter> set (delete_set s) = {}"

subsection \<open>Scenarios\<close>

text \<open>A table \<open>t\<close> whose key \<open>k\<close> has the committed value \<open>v1\<close>.\<close>

definition st_committed :: kvt_state where
  "st_committed = snd (set_kvt 0 ''t'' ''k'' ''v1'' (snd (create_table ''t'' ''hash'' init_state)))"

text \<open>Then a transaction begins (it gets the id 1) and writes \<open>v2\<close> to \<open>k\<close>.\<close>

definition st_rewritten :: kvt_state where
  "st_rewritten = snd (set_kvt 1 ''t'' ''k'' ''v2'' (snd (start_transaction st_committed)))"

text \<open>Or the transaction deletes \<open>k\<close> instead.\<close>

definition st_deleted :: kvt_state where
  "st_deleted = snd (del 1 ''t'' ''k'' (snd (start_transaction st_committed)))"

text \<open>A transaction on a table \<open>t\<close> that never held the key \<open>k\<close>.\<close>

definition st_absent :: kvt_state where
  "st_absent = snd (start_transaction (snd (create_table ''t'' ''hash'' init_state)))"

text \<open>A range table \<open>r\<close> with the committed pairs \<open>(a, 1)\<close>, \<open>(b, 2)\<close>, \<open>(c, 3)\<close>.\<close>

definition st_range :: kvt_state where
  "st_range = snd (set_kvt 0 ''r'' ''c'' ''3'' (snd (set_kvt 0 ''r'' ''b'' ''2''
     (snd (set_kvt 0 ''r'' ''a'' ''1'' (snd (create_table ''r'' ''range'' init_state)))))))"

text \<open>An empty range table \<open>r\<close> and a transaction (id 1) that has written \<open>(a, 1)\<close>.\<close>

definition st_buffered :: kvt_state where
  "st_buffered = snd (set_kvt 1 ''r'' ''a'' ''1''
     (snd (start_transaction (snd (create_table ''r'' ''range'' init_state)))))"

section \<open>The engine interface with error codes and its batch executor\<close>

text \<open>The error codes of \<^verbatim>\<open>enum class KVTError\<close>.\<close>

datatype KVTError =
    SUCCESS
  | KVT_NOT_INITIALIZED
  | TABLE_ALREADY_EXISTS
  | TABLE_NOT_FOUND
  | INVALID_PARTITION_METHOD
  | TRANSACTION_NOT_FOUND
  | TRANSACTION_ALREADY_RUNNING
  | KEY_NOT_FOUND
  | KEY_IS_DELETED
  | KEY_IS_LOCKED
  | TRANSACTION_HAS_STALE_DATA
  | ONE_SHOT_WRITE_NOT_ALLOWED
  | ONE_SHOT_DELETE_NOT_ALLOWED
  | BATCH_NOT_FULLY_SUCCESS
  | UNKNOWN_ERROR

text \<open>
  The operation types and the operation and result structures of a batch. The fields
  \<^verbatim>\<open>table_name\<close>, \<^verbatim>\<open>key\<close> and \<^verbatim>\<open>value\<close> of \<^verbatim>\<open>KVTOp\<close> and the field \<^verbatim>\<open>value\<close> of
  \<^verbatim>\<open>KVTOpResult\<close> carry a prefix here, the plain names being those of variables.
\<close>

datatype KVT_OPType = OP_UNKNOWN | OP_GET | OP_SET | OP_DEL

record KVTOp =
  op :: KVT_OPType
  op_table_name :: string
  op_key :: string
  op_value :: string

record KVTOpResult =
  error :: KVTError
  result_value :: string

text \<open>
  The pure virtual methods that \<open>batch_execute\<close> calls, over the state \<open>'s\<close> of the
  class implementing them. Each returns its error code and the final contents of its
  output parameters, which \<open>batch_execute\<close> passes in empty (for \<open>get\<close> the value, then
  the error message), together with the state it leaves.
\<close>

record 's KVTManagerWrapperInterface =
  get_impl :: "64 word \<Rightarrow> string \<Rightarrow> string \<Rightarrow> 's \<Rightarrow> (KVTError \<times> string \<times> string) \<times> 's"
  set_impl :: "64 word \<Rightarrow> string \<Rightarrow> string \<Rightarrow> string \<Rightarrow> 's \<Rightarrow> (KVTError \<times> string) \<times> 's"
  del_impl :: "64 word \<Rightarrow> string \<Rightarrow> string \<Rightarrow> 's \<Rightarrow> (KVTError \<times> string) \<times> 's"

text \<open>
  One iteration's \<^verbatim>\<open>switch\<close>: the result structure and the operation's error message.
\<close>

definition execute_op :: "'s KVTManagerWrapperInterface \<Rightarrow> 64 word \<Rightarrow> KVTOp \<Rightarrow> 's \<Rightarrow>
    (KVTOpResult \<times> string) \<times> 's" where
  "execute_op I tx_id bop s =
     (case op bop of
        OP_GET \<Rightarrow>
          (case get_impl I tx_id (op_table_name bop) (op_key bop) s of
             ((e, v, op_error), s') \<Rightarrow> ((\<lparr>error = e, result_value = v\<rparr>, op_error), s'))
      | OP_SET \<Rightarrow>
          (case set_impl I tx_id (op_table_name bop) (op_key bop) (op_value bop) s of
             ((e, op_error), s') \<Rightarrow> ((\<lparr>error = e, result_value = []\<rparr>, op_error), s'))
      | OP_DEL \<Rightarrow>
          (case del_impl I tx_id (op_table_name bop) (op_key bop) s of
             ((e, op_error), s') \<Rightarrow> ((\<lparr>error = e, result_value = []\<rparr>, op_error), s'))
      | OP_UNKNOWN \<Rightarrow>
          ((\<lparr>error = UNKNOWN_ERROR, result_value = []\<rparr>, ''Unknown operation type''), s))"

text \<open>The \<^verbatim>\<open>for\<close> loop, from index \<open>i\<close> on, with its three accumulators.\<close>

fun batch_loop :: "'s KVTManagerWrapperInterface \<Rightarrow> 64 word \<Rightarrow> KVTOp list \<Rightarrow> nat \<Rightarrow> bool \<Rightarrow>
    string \<Rightarrow> KVTOpResult list \<Rightarrow> 's \<Rightarrow> (bool \<times> string \<times> KVTOpResult list) \<times> 's" where
  "batch_loop I tx_id [] i all_success concatenated_errors batch_results s =
     ((all_success, concatenated_errors, batch_results), s)"
| "batch_loop I tx_id (bop # ops) i all_success concatenated_errors batch_results s =
     (case execute_op I tx_id bop s of
        ((result, op_error), s') \<Rightarrow>
          batch_loop I tx_id ops (i + 1)
            (if error result \<noteq> SUCCESS then False else all_success)
            (if error result \<noteq> SUCCESS \<and> op_error \<noteq> []
             then concatenated_errors @ ''op['' @ to_string i @ '']: '' @ op_error @ ''; ''
             else concatenated_errors)
            (batch_results @ [result]) s')"

text \<open>
  The default \<open>batch_execute\<close>: the aggregate code, the per-operation results and the
  error message, which is written only when some operation failed.
\<close>

definition batch_execute :: "'s KVTManagerWrapperInterface \<Rightarrow> 64 word \<Rightarrow> KVTOp list \<Rightarrow> 's \<Rightarrow>
    (KVTError \<times> KVTOpResult list \<times> string option) \<times> 's" where
  "batch_execute I tx_id batch_ops s =
     (case batch_loop I tx_id batch_ops 0 True [] [] s of
        ((all_success, concatenated_errors, batch_results), s') \<Rightarrow>
          if all_success then ((SUCCESS, batch_results, None), s')
          else ((BATCH_NOT_FULLY_SUCCESS, batch_results, Some concatenated_errors), s'))"

text \<open>
  For stating what the batch does: the results of the operations run one after another,
  and the state that a sequence of operations leaves.
\<close>

fun run_ops :: "'s KVTManagerWrapperInterface \<Rightarrow> 64 word \<Rightarrow> KVTOp list \<Rightarrow> 's \<Rightarrow> KVTOpResult list" where
  "run_ops I tx_id [] s = []"
| "run_ops I tx_id (bop # ops) s =
     fst (fst (execute_op I tx_id bop s)) # run_ops I tx_id ops (snd (execute_op I tx_id bop s))"

definition state_after :: "'s KVTManagerWrapperInterface \<Rightarrow> 64 word \<Rightarrow> KVTOp list \<Rightarrow> 's \<Rightarrow> 's" where
  "state_after I tx_id ops s = fold (\<lambda>bop s. snd (execute_op I tx_id bop s)) ops s"

text \<open>
  What the specification says of one operation of a batch, in terms of the interface
  alone: the operation is the call of \<open>get\<close>, \<open>set\<close> or \<open>del\<close> with its table, key and
  value, and \<open>interface_state\<close> is the state which that call leaves; an operation of
  unknown type calls nothing.
\<close>

definition interface_state :: "'s KVTManagerWrapperInterface \<Rightarrow> 64 word \<Rightarrow> KVTOp \<Rightarrow> 's \<Rightarrow> 's" where
  "interface_state I tx_id bop s =
     (case op bop of
        OP_GET \<Rightarrow> snd (get_impl I tx_id (op_table_name bop) (op_key bop) s)
      | OP_SET \<Rightarrow> snd (set_impl I tx_id (op_table_name bop) (op_key bop) (op_value bop) s)
      | OP_DEL \<Rightarrow> snd (del_impl I tx_id (op_table_name bop) (op_key bop) s)
      | OP_UNKNOWN \<Rightarrow> s)"


section \<open>The column adapter: framing\<close>

text \<open>
  What the adapter throws: \<^verbatim>\<open>std::runtime_error\<close> (from the \<^verbatim>\<open>CHECK\<close> macro) and
  \<^verbatim>\<open>std::invalid_argument\<close>, each with its message.
\<close>

datatype exn = Runtime_error string | Invalid_argument string

text \<open>
  The column-value pair \<^verbatim>\<open>struct ColumnValue\<close>; its fields \<^verbatim>\<open>column\<close> and \<^verbatim>\<open>value\<close>
  carry a prefix here.
\<close>

record ColumnValue =
  cv_column :: string
  cv_value :: string

text \<open>
  \<^verbatim>\<open>std::is_sorted\<close> with \<^verbatim>\<open>ColumnValue::operator<\<close>, which compares the columns: no
  element is less than the one before it.
\<close>

fun is_sorted :: "ColumnValue list \<Rightarrow> bool" where
  "is_sorted [] = True"
| "is_sorted [x] = True"
| "is_sorted (x # y # rest) = (\<not> cv_column y < cv_column x \<and> is_sorted (y # rest))"

text \<open>
  The four bytes of a \<^verbatim>\<open>uint32_t\<close> in memory, least significant first, as
  \<^verbatim>\<open>ss.write(reinterpret_cast<const char*>(&n), 4)\<close> writes them and \<^verbatim>\<open>memcpy\<close> reads
  them back on a little-endian machine.
\<close>

definition u32_bytes :: "32 word \<Rightarrow> string" where
  "u32_bytes w =
     [char_of (unat w), char_of (unat w div 256), char_of (unat w div 65536),
      char_of (unat w div 16777216)]"

definition u32_of_bytes :: "string \<Rightarrow> 32 word" where
  "u32_of_bytes bs =
     of_nat (of_char (bs ! 0) + 256 * of_char (bs ! 1) + 65536 * of_char (bs ! 2)
             + 16777216 * of_char (bs ! 3))"

text \<open>
  One pair of the frame. The lengths are the sizes converted to \<^verbatim>\<open>uint32_t\<close>, and
  \<^verbatim>\<open>ss.write(p, len)\<close> writes that many bytes of the string.
\<close>

definition write_column :: "ColumnValue \<Rightarrow> string" where
  "write_column cv =
     (let col_len = (of_nat (length (cv_column cv)) :: 32 word);
          val_len = (of_nat (length (cv_value cv)) :: 32 word)
      in u32_bytes col_len @ take (unat col_len) (cv_column cv)
         @ u32_bytes val_len @ take (unat val_len) (cv_value cv))"

definition serialize_columns :: "ColumnValue list \<Rightarrow> exn + string" where
  "serialize_columns columns =
     (let num_columns = (of_nat (length columns) :: 32 word) in
      if \<not> num_columns > 0
      then Inl (Runtime_error ''Number of columns must be greater than 0'')
      else if \<not> is_sorted columns
      then Inl (Runtime_error ''Columns Must Be sorted before serialization'')
      else Inr (u32_bytes num_columns @ concat (map write_column columns)))"

text \<open>
  Reading in \<open>deserialize_columns\<close>. The pointer \<open>ptr\<close> is the part of the input from
  \<open>ptr\<close> up to \<open>end\<close>, so \<^verbatim>\<open>ptr + n > end\<close> says that \<open>n\<close> exceeds its length.
  \<open>read_u32\<close> is the check for four bytes, the \<^verbatim>\<open>memcpy\<close> and the advance of \<open>ptr\<close>;
  \<open>None\<close> when the check fails.
\<close>

definition read_u32 :: "string \<Rightarrow> (32 word \<times> string) option" where
  "read_u32 ptr = (if 4 > length ptr then None else Some (u32_of_bytes (take 4 ptr), drop 4 ptr))"

text \<open>
  The \<^verbatim>\<open>for\<close> loop with \<open>n\<close> iterations to go; every \<^verbatim>\<open>break\<close> leaves it with the pairs
  collected so far.
\<close>

fun parse_columns :: "nat \<Rightarrow> string \<Rightarrow> ColumnValue list \<Rightarrow> ColumnValue list" where
  "parse_columns 0 ptr result = result"
| "parse_columns (Suc n) ptr result =
     (case read_u32 ptr of
        None \<Rightarrow> result
      | Some (col_len, ptr1) \<Rightarrow>
          if unat col_len > length ptr1 then result
          else
            (case read_u32 (drop (unat col_len) ptr1) of
               None \<Rightarrow> result
             | Some (val_len, ptr2) \<Rightarrow>
                 if unat val_len > length ptr2 then result
                 else
                   parse_columns n (drop (unat val_len) ptr2)
                     (result @ [\<lparr>cv_column = take (unat col_len) ptr1,
                                 cv_value = take (unat val_len) ptr2\<rparr>])))"

definition deserialize_columns :: "string \<Rightarrow> exn + ColumnValue list" where
  "deserialize_columns data =
     (if data = [] then Inl (Runtime_error ''Data is empty'')
      else
        (case read_u32 data of
           None \<Rightarrow> Inr []
         | Some (num_columns, ptr) \<Rightarrow>
             let result = parse_columns (unat num_columns) ptr [] in
             if result \<noteq> [] \<and> \<not> is_sorted result
             then Inl (Runtime_error ''Columns Must Be sorted before deserialization'')
             else Inr result))"

text \<open>
  The bounds of the frame format: fewer than \<open>2 ^ 32\<close> pairs, and every column and
  value shorter than \<open>2 ^ 32\<close> bytes, so that each size fits its \<^verbatim>\<open>uint32_t\<close> field.
\<close>

definition fits_pair :: "ColumnValue \<Rightarrow> bool" where
  "fits_pair cv \<longleftrightarrow> length (cv_column cv) < 2 ^ 32 \<and> length (cv_value cv) < 2 ^ 32"

definition fits_frame :: "ColumnValue list \<Rightarrow> bool" where
  "fits_frame columns \<longleftrightarrow>
     length columns < 2 ^ 32
     \<and> (\<forall>cv \<in> set columns. length (cv_column cv) < 2 ^ 32 \<and> length (cv_value cv) < 2 ^ 32)"

text \<open>
  The number of bytes that the pairs of a frame take after the count: for each pair two
  length fields of four bytes, the column and the value.
\<close>

definition pairs_size :: "ColumnValue list \<Rightarrow> nat" where
  "pairs_size cs = sum_list (map (\<lambda>cv. 8 + length (cv_column cv) + length (cv_value cv)) cs)"

section \<open>The column adapter over the serialized engine\<close>

text \<open>
  The global \<^verbatim>\<open>g_kvt_manager\<close>: \<open>None\<close> before \<^verbatim>\<open>kvt_initialize\<close> and after
  \<^verbatim>\<open>kvt_shutdown\<close>, otherwise the engine. The functions \<open>kvt_get\<close> and \<open>kvt_scan\<close> of
  the interface check it and forward to the engine.
\<close>

definition kvt_get :: "64 word \<Rightarrow> string \<Rightarrow> string \<Rightarrow> kvt_state option \<Rightarrow>
    (string + string) \<times> kvt_state option" where
  "kvt_get tx_id table_name key g =
     (case g of
        None \<Rightarrow> (Inl ''KVT system not initialized'', g)
      | Some s \<Rightarrow> (case get tx_id table_name key s of (r, s') \<Rightarrow> (r, Some s')))"

definition kvt_scan :: "64 word \<Rightarrow> string \<Rightarrow> string \<Rightarrow> string \<Rightarrow> nat \<Rightarrow> kvt_state option \<Rightarrow>
    ((string + (string \<times> string) list) \<times> kvt_state option) option" where
  "kvt_scan tx_id table_name key_start key_end num_item_limit g =
     (case g of
        None \<Rightarrow> Some (Inl ''KVT system not initialized'', g)
      | Some s \<Rightarrow>
          (case scan tx_id table_name key_start key_end num_item_limit s of
             None \<Rightarrow> None
           | Some (r, s') \<Rightarrow> Some (r, Some s')))"

text \<open>The separator of composite keys in this adapter: the zero byte.\<close>

definition KEY_COLUMN_SEPARATOR :: char where
  "KEY_COLUMN_SEPARATOR = CHR 0x00"

definition make_composite_key :: "string \<Rightarrow> string \<Rightarrow> exn + string" where
  "make_composite_key key column =
     (if KEY_COLUMN_SEPARATOR \<in> set key \<or> KEY_COLUMN_SEPARATOR \<in> set column
         \<or> key = [] \<or> column = []
      then Inl (Invalid_argument ''Key or column contains separator or is empty'')
      else Inr (key @ [KEY_COLUMN_SEPARATOR] @ column))"

definition split_composite_key :: "string \<Rightarrow> exn + (string \<times> string)" where
  "split_composite_key composite_key =
     (if KEY_COLUMN_SEPARATOR \<in> set composite_key
      then
        let pos = length (takeWhile (\<lambda>c. c \<noteq> KEY_COLUMN_SEPARATOR) composite_key)
        in Inr (take pos composite_key, drop (pos + 1) composite_key)
      else Inl (Invalid_argument ''Composite key is invalid''))"

text \<open>
  The loop of \<open>get_all_columns\<close> over the scan results: each scanned key is split, the
  \<^verbatim>\<open>CHECK\<close> compares its key part, and the column and value are appended.
\<close>

fun collect_columns :: "string \<Rightarrow> (string \<times> string) list \<Rightarrow> ColumnValue list \<Rightarrow>
    exn + ColumnValue list" where
  "collect_columns key [] result = Inr result"
| "collect_columns key ((composite_key, val) # scan_results) result =
     (case split_composite_key composite_key of
        Inl e \<Rightarrow> Inl e
      | Inr (extracted_key, column) \<Rightarrow>
          if extracted_key \<noteq> key
          then Inl (Runtime_error ''Composite key is not extracted correctly'')
          else collect_columns key scan_results
                 (result @ [\<lparr>cv_column = column, cv_value = val\<rparr>]))"

text \<open>
  \<open>get_all_columns\<close> of the adapter, under the flag \<open>g_use_composite_key_method\<close>. It
  returns the columns, or the exception it throws, and the message left in
  \<^verbatim>\<open>error_msg\<close> by a failed engine call (\<open>None\<close> when it is not written); the outer
  \<open>None\<close> is the undefined behaviour of the engine's scan.
\<close>

definition get_all_columns :: "bool \<Rightarrow> 64 word \<Rightarrow> string \<Rightarrow> string \<Rightarrow> kvt_state option \<Rightarrow>
    ((exn + ColumnValue list \<times> string option) \<times> kvt_state option) option" where
  "get_all_columns g_use_composite_key_method tx_id table_name key g =
     (if g_use_composite_key_method
      then
        (case make_composite_key key [] of
           Inl e \<Rightarrow> Some (Inl e, g)
         | Inr start_key \<Rightarrow>
             let end_key = key @ [char_of (of_char KEY_COLUMN_SEPARATOR + (1 :: nat))] in
             (case kvt_scan tx_id table_name start_key end_key 10000 g of
                None \<Rightarrow> None
              | Some (Inl error_msg, g') \<Rightarrow> Some (Inr ([], Some error_msg), g')
              | Some (Inr scan_results, g') \<Rightarrow>
                  (case collect_columns key scan_results [] of
                     Inl e \<Rightarrow> Some (Inl e, g')
                   | Inr result \<Rightarrow> Some (Inr (result, None), g'))))
      else
        (case kvt_get tx_id table_name key g of
           (Inl error_msg, g') \<Rightarrow> Some (Inr ([], Some error_msg), g')
         | (Inr serialized, g') \<Rightarrow>
             (case deserialize_columns serialized of
                Inl e \<Rightarrow> Some (Inl e, g')
              | Inr result \<Rightarrow> Some (Inr (result, None), g'))))"

text \<open>
  \<open>set_column\<close> under the composite-key flag: the validation, the composite key and the
  engine's \<open>set\<close> behind \<^verbatim>\<open>kvt_set\<close>.
\<close>

definition kvt_set :: "64 word \<Rightarrow> string \<Rightarrow> string \<Rightarrow> string \<Rightarrow> kvt_state option \<Rightarrow>
    (string + unit) \<times> kvt_state option" where
  "kvt_set tx_id table_name key val g =
     (case g of
        None \<Rightarrow> (Inl ''KVT system not initialized'', g)
      | Some s \<Rightarrow> (case set_kvt tx_id table_name key val s of (r, s') \<Rightarrow> (r, Some s')))"

definition set_column_composite :: "64 word \<Rightarrow> string \<Rightarrow> string \<Rightarrow> string \<Rightarrow> string \<Rightarrow>
    kvt_state option \<Rightarrow> (exn + (string + unit)) \<times> kvt_state option" where
  "set_column_composite tx_id table_name key column val g =
     (if key = [] \<or> column = []
      then (Inr (Inl ''Key and column cannot be empty''), g)
      else
        (case make_composite_key key column of
           Inl e \<Rightarrow> (Inl e, g)
         | Inr composite_key \<Rightarrow>
             (case kvt_set tx_id table_name composite_key val g of
                (r, g') \<Rightarrow> (Inr r, g'))))"

text \<open>
  The adapter's own test of the composite-key method: a range table and one column
  stored for the key \<open>vertex:1\<close>.
\<close>

definition st_composite :: "kvt_state option" where
  "st_composite = snd (set_column_composite 0 ''composite_test'' ''vertex:1'' ''name'' ''Alice''
     (Some (snd (create_table ''composite_test'' ''range'' init_state))))"

section \<open>The optimistic engine: \<^verbatim>\<open>KVTManagerWrapperOCC\<close>\<close>

text \<open>
  The structures of \<^verbatim>\<open>KVTManagerWrapperBase\<close>, which the optimistic engine inherits
  (field names carry a prefix where the plain name is that of a variable or of a field
  of the serialized engine). The metadata of an entry is a signed 32-bit integer: for
  this engine the version of the entry. The sets of a transaction are keyed by the table
  key (table name, zero byte, key); the ordered maps \<open>read_set\<close> and \<open>write_set\<close> are
  the lists of their entries, the data of a table is a map.
\<close>

record Entry =
  entry_data :: string
  entry_metadata :: "32 word"

record Table =
  tbl_id :: "64 word"
  tbl_name :: string
  tbl_partition_method :: string
  tbl_data :: "string \<rightharpoonup> Entry"

record Transaction =
  txn_id :: "64 word"
  txn_read_set :: "(string \<times> Entry) list"
  txn_write_set :: "(string \<times> Entry) list"
  txn_delete_set :: "string list"

record base_state =
  tables :: "string \<rightharpoonup> Table"
  transactions :: "64 word \<rightharpoonup> Transaction"
  tablename_to_id :: "string \<rightharpoonup> 64 word"
  base_next_table_id :: "64 word"
  base_next_tx_id :: "64 word"

text \<open>
  \<open>parse_table_key\<close> splits a table key at its first zero byte; the source asserts
  that there is one (\<open>None\<close> when the assertion fails).
\<close>

definition parse_table_key :: "string \<Rightarrow> (string \<times> string) option" where
  "parse_table_key table_key =
     (if CHR 0x00 \<in> set table_key
      then
        let separator_pos = length (takeWhile (\<lambda>c. c \<noteq> CHR 0x00) table_key)
        in Some (take separator_pos table_key, drop (separator_pos + 1) table_key)
      else None)"

text \<open>
  Modelled from the spec: the current entry of a fully-qualified key, which the
  validation of section 4.4 compares with the observation; the lookup goes through
  \<open>parse_table_key\<close> and the table of that name.
\<close>

definition current_entry :: "base_state \<Rightarrow> string \<Rightarrow> Entry option" where
  "current_entry s table_key =
     (case parse_table_key table_key of
        None \<Rightarrow> None
      | Some (table_name, key) \<Rightarrow>
          (case tables s table_name of
             None \<Rightarrow> None
           | Some t \<Rightarrow> tbl_data t key))"

text \<open>
  Modelled from the spec: the body of \<^verbatim>\<open>KVTManagerWrapperOCC::commit_transaction\<close>,
  which the header declares and whose definition is not among the sources. Section 4.4
  of the specification: in the validation phase, for every key in the read-set,
  including those lifted into the write-set, the current entry's version must equal the
  observed version, and a new key (previously absent) must still be absent; on a
  mismatch the commit aborts with \<open>TRANSACTION_HAS_STALE_DATA\<close> and discards the
  context without installing; on success it installs the writes with version
  \<open>max(observed, current) + 1\<close> and erases the deletions. An unknown transaction id
  fails with \<open>TRANSACTION_NOT_FOUND\<close> (section 4.2).

  An entry of the read-set or write-set carries what the transaction observed: its
  metadata is the observed version. How such an entry marks a key that was absent when
  it was observed is not fixed by the specification; the predicate \<open>absent\<close> is that
  marker and a parameter of the model.
\<close>

definition still_valid :: "(Entry \<Rightarrow> bool) \<Rightarrow> base_state \<Rightarrow> string \<times> Entry \<Rightarrow> bool" where
  "still_valid absent s ke =
     (case current_entry s (fst ke) of
        None \<Rightarrow> absent (snd ke)
      | Some cur \<Rightarrow> \<not> absent (snd ke) \<and> entry_metadata cur = entry_metadata (snd ke))"

text \<open>
  Modelled from the spec: the validation phase of section 4.4 over the read-set and the
  write-set of the transaction.
\<close>

definition validate :: "(Entry \<Rightarrow> bool) \<Rightarrow> base_state \<Rightarrow> Transaction \<Rightarrow> bool" where
  "validate absent s txn = list_all (still_valid absent s) (txn_read_set txn @ txn_write_set txn)"

text \<open>
  Modelled from the spec: the installation of section 4.4. A write gets the version
  \<open>max(observed, current) + 1\<close>, the maximum being that of signed integers and the
  current version of an absent key being 0; a deletion erases the key.
\<close>

definition max_version :: "32 word \<Rightarrow> 32 word \<Rightarrow> 32 word" where
  "max_version a b = (if sint a < sint b then b else a)"

text \<open>
  Modelled from the spec: installing one write of the write-set into its table.
\<close>

definition install_write :: "base_state \<Rightarrow> string \<times> Entry \<Rightarrow> base_state" where
  "install_write s ke =
     (case parse_table_key (fst ke) of
        None \<Rightarrow> s
      | Some (table_name, key) \<Rightarrow>
          (case tables s table_name of
             None \<Rightarrow> s
           | Some t \<Rightarrow>
               let current = (case tbl_data t key of None \<Rightarrow> 0 | Some cur \<Rightarrow> entry_metadata cur);
                   e = \<lparr>entry_data = entry_data (snd ke),
                        entry_metadata = max_version (entry_metadata (snd ke)) current + 1\<rparr>
               in s\<lparr>tables := (tables s)(table_name \<mapsto> t\<lparr>tbl_data := (tbl_data t)(key \<mapsto> e)\<rparr>)\<rparr>))"

text \<open>
  Modelled from the spec: erasing one key of the delete-set from its table.
\<close>

definition erase_key :: "base_state \<Rightarrow> string \<Rightarrow> base_state" where
  "erase_key s table_key =
     (case parse_table_key table_key of
        None \<Rightarrow> s
      | Some (table_name, key) \<Rightarrow>
          (case tables s table_name of
             None \<Rightarrow> s
           | Some t \<Rightarrow>
               s\<lparr>tables := (tables s)(table_name \<mapsto> t\<lparr>tbl_data := (tbl_data t)(key := None)\<rparr>)\<rparr>))"

text \<open>
  Modelled from the spec: \<open>commit\<close> of the optimistic engine as a whole (sections 4.2
  and 4.4): unknown transaction, failed validation, or installation; the context is
  erased in the last two cases.
\<close>

definition occ_commit_transaction :: "(Entry \<Rightarrow> bool) \<Rightarrow> 64 word \<Rightarrow> base_state \<Rightarrow>
    KVTError \<times> base_state" where
  "occ_commit_transaction absent tx_id s =
     (case transactions s tx_id of
        None \<Rightarrow> (TRANSACTION_NOT_FOUND, s)
      | Some txn \<Rightarrow>
          if \<not> validate absent s txn
          then (TRANSACTION_HAS_STALE_DATA, s\<lparr>transactions := (transactions s)(tx_id := None)\<rparr>)
          else
            (SUCCESS,
             (foldl erase_key (foldl install_write s (txn_write_set txn)) (txn_delete_set txn))
               \<lparr>transactions := (transactions s)(tx_id := None)\<rparr>))"

text \<open>
  A conflict: the key \<open>k\<close> of table \<open>t\<close> is committed at version 2, and transaction 2
  holds a write to it that carries the version 1 it had observed.
\<close>

definition st_conflict :: base_state where
  "st_conflict =
     \<lparr>tables = [''t'' \<mapsto> \<lparr>tbl_id = 1, tbl_name = ''t'', tbl_partition_method = ''hash'',
                          tbl_data = [''k'' \<mapsto> \<lparr>entry_data = ''a'', entry_metadata = 2\<rparr>]\<rparr>],
      transactions = [2 \<mapsto> \<lparr>txn_id = 2, txn_read_set = [],
                              txn_write_set = [(''t'' @ [CHR 0x00] @ ''k'',
                                                \<lparr>entry_data = ''b'', entry_metadata = 1\<rparr>)],
                              txn_delete_set = []\<rparr>],
      tablename_to_id = [''t'' \<mapsto> 1],
      base_next_table_id = 2, base_next_tx_id = 3\<rparr>"

section \<open>Properties of the serialized engine\<close>

text \<open>
  C10. In the serialized engine \<open>get\<close> changes nothing: whatever the transaction id,
  the table and the key, and whether it succeeds or fails, the state it leaves (the
  committed table data, the write-set, the delete-set, the current-transaction slot and
  both id counters) is the state it was called in. The class has no read-set and no
  entry locks to touch.
\<close>

theorem get_state_unchanged:
  "snd (get tx_id table_name key s) = s"
  by (simp add: get_def Let_def split: option.split)

text \<open>
  C1. Commit installs the write-set with \<^verbatim>\<open>insert\<close>, which keeps the value of a key
  that is already in the table. With \<open>k\<close> committed as \<open>v1\<close>, a transaction that writes
  \<open>v2\<close> to \<open>k\<close> reads its own \<open>v2\<close>, commits successfully, and the committed value
  is still \<open>v1\<close>.
\<close>

theorem commit_keeps_earlier_committed_value:
  "fst (get 1 ''t'' ''k'' st_rewritten) = Inr ''v2''
   \<and> fst (commit_transaction 1 st_rewritten) = Inr ()
   \<and> fst (get 0 ''t'' ''k'' (snd (commit_transaction 1 st_rewritten))) = Inr ''v1''"
  by (simp add: st_rewritten_def st_committed_def get_def set_kvt_def commit_transaction_def
      start_transaction_def create_table_def init_state_def make_table_key_def Let_def)

text \<open>
  C2. The scan walks the committed entries only. A transaction that has written the new
  key \<open>a\<close> of table \<open>r\<close> reads it back with \<open>get\<close>, and its scan of the range from
  \<open>a\<close> to \<open>a\<close> is empty.
\<close>

theorem scan_misses_buffered_new_key:
  "fst (get 1 ''r'' ''a'' st_buffered) = Inr ''1''
   \<and> scan 1 ''r'' ''a'' ''a'' 10 st_buffered = Some (Inr [], st_buffered)"
  by (simp add: st_buffered_def get_def set_kvt_def scan_def start_transaction_def
      create_table_def init_state_def make_table_key_def Let_def)

text \<open>
  C3. The scan returns the keys of the table store, which carry the table name and a
  zero byte in front of the caller's key: on the range table \<open>r\<close> holding \<open>a\<close>, \<open>b\<close>
  and \<open>c\<close>, the one-shot scan from \<open>a\<close> to \<open>b\<close> returns the two pairs under the keys
  \<open>r\<close>, zero byte, \<open>a\<close> and \<open>r\<close>, zero byte, \<open>b\<close>, not under \<open>a\<close> and \<open>b\<close>.
\<close>

theorem scan_returns_table_qualified_keys:
  "scan 0 ''r'' ''a'' ''b'' 10 st_range =
     Some (Inr [(''r'' @ [CHR 0x00] @ ''a'', ''1''), (''r'' @ [CHR 0x00] @ ''b'', ''2'')], st_range)
   \<and> scan 0 ''r'' ''a'' ''b'' 10 st_range \<noteq> Some (Inr [(''a'', ''1''), (''b'', ''2'')], st_range)"
  by (simp add: st_range_def set_kvt_def scan_def create_table_def init_state_def
      make_table_key_def Let_def)

subsection \<open>Reading a key the transaction has deleted\<close>

lemma sets_disjoint_set_kvt:
  "sets_disjoint s \<Longrightarrow> sets_disjoint (snd (set_kvt tx_id table_name key val s))"
  by (auto simp: sets_disjoint_def set_kvt_def Let_def dom_update)

lemma sets_disjoint_del:
  "sets_disjoint s \<Longrightarrow> sets_disjoint (snd (del tx_id table_name key s))"
  by (auto simp: sets_disjoint_def del_def Let_def AList.delete_eq)

lemma scan_state:
  "scan tx_id table_name key_start key_end num_item_limit s = Some (r, s') \<Longrightarrow> s' = s"
  by (auto simp: scan_def Let_def split: if_splits option.splits)

lemma reachable_sets_disjoint: "reachable s \<Longrightarrow> sets_disjoint s"
proof (induction rule: reachable.induct)
  case reach_init
  show ?case by (simp add: sets_disjoint_def init_state_def)
next
  case (reach_create_table s table_name partition_method)
  then show ?case by (simp add: sets_disjoint_def create_table_def)
next
  case (reach_start_transaction s)
  then show ?case by (simp add: sets_disjoint_def start_transaction_def)
next
  case (reach_commit_transaction s tx_id)
  then show ?case by (simp add: sets_disjoint_def commit_transaction_def)
next
  case (reach_rollback_transaction s tx_id)
  then show ?case by (simp add: sets_disjoint_def rollback_transaction_def)
next
  case (reach_get s tx_id table_name key)
  then show ?case by (simp add: get_def Let_def split: option.split)
next
  case (reach_set s tx_id table_name key val)
  from reach_set.IH show ?case by (rule sets_disjoint_set_kvt)
next
  case (reach_del s tx_id table_name key)
  from reach_del.IH show ?case by (rule sets_disjoint_del)
next
  case (reach_scan s tx_id table_name key_start key_end num_item_limit r s')
  then show ?case by (auto dest: scan_state)
qed

text \<open>
  C4, as the claim states it. The engine reports a failure by returning \<^verbatim>\<open>false\<close> with a
  message; it has no error codes. Reading the key \<open>k\<close> that the transaction has deleted
  fails with exactly the result of reading a key that was never there.
\<close>

theorem get_deleted_key_counterexample:
  "fst (get 1 ''t'' ''k'' st_deleted) = Inl ''Key k not found''
   \<and> fst (get 1 ''t'' ''k'' st_absent) = Inl ''Key k not found''"
  by (simp add: st_deleted_def st_absent_def st_committed_def get_def set_kvt_def del_def
      start_transaction_def create_table_def init_state_def make_table_key_def
      key_not_found_def Let_def)

text \<open>
  C4, amended. In every reachable state with a live transaction \<open>tx_id\<close> (not 0), \<open>get\<close>
  of a key in the delete-set fails with the message that the key is not found, the
  message of an absent key; in particular \<open>get\<close> fails so right after \<open>del\<close> of the key.
\<close>

theorem get_deleted_key_fails_not_found:
  assumes "reachable s" and "tx_id \<noteq> 0" and "current_tx_id s = tx_id"
  shows "(make_table_key table_name key \<in> set (delete_set s) \<longrightarrow>
            fst (get tx_id table_name key s) = Inl (key_not_found key))
         \<and> fst (get tx_id table_name key (snd (del tx_id table_name key s)))
             = Inl (key_not_found key)"
proof
  show "make_table_key table_name key \<in> set (delete_set s) \<longrightarrow>
            fst (get tx_id table_name key s) = Inl (key_not_found key)"
  proof
    assume d: "make_table_key table_name key \<in> set (delete_set s)"
    from assms(1) have "sets_disjoint s" by (rule reachable_sets_disjoint)
    with d have "make_table_key table_name key \<notin> fst ` set (write_set s)"
      by (auto simp: sets_disjoint_def)
    then have "map_of (write_set s) (make_table_key table_name key) = None"
      by (simp add: map_of_eq_None_iff)
    with d assms(2,3) show "fst (get tx_id table_name key s) = Inl (key_not_found key)"
      by (simp add: get_def Let_def)
  qed
next
  have "map_of (AList.delete (make_table_key table_name key) (write_set s))
          (make_table_key table_name key) = None"
    by (simp add: delete_conv)
  with assms(2,3)
  show "fst (get tx_id table_name key (snd (del tx_id table_name key s)))
          = Inl (key_not_found key)"
    by (simp add: get_def del_def Let_def)
qed

theorem get_deleted_key_fails_not_found_witness:
  "reachable st_deleted \<and> (1 :: 64 word) \<noteq> 0 \<and> current_tx_id st_deleted = 1
   \<and> make_table_key ''t'' ''k'' \<in> set (delete_set st_deleted)
   \<and> fst (get 1 ''t'' ''k'' st_deleted) = Inl ''Key k not found''
   \<and> fst (get 1 ''t'' ''k'' (snd (del 1 ''t'' ''k'' st_deleted))) = Inl ''Key k not found''"
proof -
  have r: "reachable st_deleted"
    unfolding st_deleted_def st_committed_def by (intro reachable.intros)
  have n: "(1 :: 64 word) \<noteq> 0" by simp
  have c: "current_tx_id st_deleted = 1"
    by (simp add: st_deleted_def st_committed_def set_kvt_def del_def start_transaction_def
        create_table_def init_state_def make_table_key_def Let_def)
  have d: "make_table_key ''t'' ''k'' \<in> set (delete_set st_deleted)"
    by (simp add: st_deleted_def st_committed_def set_kvt_def del_def start_transaction_def
        create_table_def init_state_def make_table_key_def Let_def)
  from get_deleted_key_fails_not_found [OF r n c, of "''t''" "''k''"] r n c d
  show ?thesis by (simp add: key_not_found_def)
qed

section \<open>Properties of the batch executor\<close>

lemma length_run_ops: "length (run_ops I tx_id ops s) = length ops"
  by (induction ops arbitrary: s) auto

lemma nth_run_ops:
  "i < length ops \<Longrightarrow>
   run_ops I tx_id ops s ! i = fst (fst (execute_op I tx_id (ops ! i) (state_after I tx_id (take i ops) s)))"
proof (induction ops arbitrary: s i)
  case Nil
  then show ?case by simp
next
  case (Cons bop ops)
  show ?case
  proof (cases i)
    case 0
    then show ?thesis by (simp add: state_after_def)
  next
    case (Suc j)
    with Cons.prems have "j < length ops" by simp
    from Cons.IH [OF this] Suc show ?thesis by (simp add: state_after_def)
  qed
qed

lemma batch_loop_run_ops:
  "batch_loop I tx_id ops i a e rs s = ((a', e', rs'), s') \<Longrightarrow>
   rs' = rs @ run_ops I tx_id ops s
   \<and> (a' \<longleftrightarrow> a \<and> (\<forall>r \<in> set (run_ops I tx_id ops s). error r = SUCCESS))
   \<and> s' = state_after I tx_id ops s"
proof (induction ops arbitrary: i a e rs s)
  case Nil
  then show ?case by (simp add: state_after_def)
next
  case (Cons bop ops)
  obtain result op_error s1 where ex: "execute_op I tx_id bop s = ((result, op_error), s1)"
    by (metis surj_pair)
  from Cons.prems ex
  have "batch_loop I tx_id ops (i + 1)
            (if error result \<noteq> SUCCESS then False else a)
            (if error result \<noteq> SUCCESS \<and> op_error \<noteq> []
             then e @ ''op['' @ to_string i @ '']: '' @ op_error @ ''; ''
             else e)
            (rs @ [result]) s1 = ((a', e', rs'), s')"
    by simp
  from Cons.IH [OF this] ex show ?case
    by (auto simp: state_after_def)
qed

lemma execute_op_state: "snd (execute_op I tx_id bop s) = interface_state I tx_id bop s"
  by (simp add: execute_op_def interface_state_def split: KVT_OPType.split prod.split)

lemma state_after_interface: "state_after I tx_id ops s = fold (interface_state I tx_id) ops s"
  by (induction ops arbitrary: s) (simp_all add: state_after_def execute_op_state)

lemma execute_op_result:
  "fst (fst (execute_op I tx_id bop s)) =
     (case op bop of
        OP_GET \<Rightarrow>
          \<lparr>error = fst (fst (get_impl I tx_id (op_table_name bop) (op_key bop) s)),
           result_value = fst (snd (fst (get_impl I tx_id (op_table_name bop) (op_key bop) s)))\<rparr>
      | OP_SET \<Rightarrow>
          \<lparr>error = fst (fst (set_impl I tx_id (op_table_name bop) (op_key bop) (op_value bop) s)),
           result_value = []\<rparr>
      | OP_DEL \<Rightarrow>
          \<lparr>error = fst (fst (del_impl I tx_id (op_table_name bop) (op_key bop) s)),
           result_value = []\<rparr>
      | OP_UNKNOWN \<Rightarrow> \<lparr>error = UNKNOWN_ERROR, result_value = []\<rparr>)"
  by (simp add: execute_op_def split: KVT_OPType.split prod.split)

lemma batch_execute_run_ops:
  assumes "batch_execute I tx_id batch_ops s = ((rc, batch_results, error_msg), s')"
  shows "batch_results = run_ops I tx_id batch_ops s"
    and "rc = (if \<forall>r \<in> set batch_results. error r = SUCCESS then SUCCESS else BATCH_NOT_FULLY_SUCCESS)"
    and "s' = state_after I tx_id batch_ops s"
proof -
  obtain a e rs s1 where bl: "batch_loop I tx_id batch_ops 0 True [] [] s = ((a, e, rs), s1)"
    by (metis surj_pair)
  from batch_loop_run_ops [OF bl]
  have rs: "rs = run_ops I tx_id batch_ops s"
    and a: "a \<longleftrightarrow> (\<forall>r \<in> set (run_ops I tx_id batch_ops s). error r = SUCCESS)"
    and s1: "s1 = state_after I tx_id batch_ops s"
    by simp_all
  from assms bl have res: "batch_results = rs" and rc: "rc = (if a then SUCCESS else BATCH_NOT_FULLY_SUCCESS)"
    and st: "s' = s1"
    by (auto simp: batch_execute_def split: if_splits)
  from res rs show "batch_results = run_ops I tx_id batch_ops s" by simp
  from rc a res rs show "rc = (if \<forall>r \<in> set batch_results. error r = SUCCESS then SUCCESS else BATCH_NOT_FULLY_SUCCESS)"
    by simp
  from st s1 show "s' = state_after I tx_id batch_ops s" by simp
qed

text \<open>
  C5. For every list of operations, \<open>batch_execute\<close> returns exactly one result per
  operation, in the order of the operations. The result at index \<open>i\<close> carries the
  error code that the interface call of operation \<open>i\<close> returns: \<open>get\<close>, \<open>set\<close> or
  \<open>del\<close> of the implementing class, called with the operation's table, key and value in
  the state left by the calls of the operations before it (and the value that \<open>get\<close>
  returned; \<open>UNKNOWN_ERROR\<close> for an operation of unknown type), also when an earlier
  operation has failed. The state left is that of all the calls in sequence. The
  aggregate code is \<open>SUCCESS\<close> exactly when every result's code is \<open>SUCCESS\<close>, and it
  is \<open>BATCH_NOT_FULLY_SUCCESS\<close> otherwise.
\<close>

theorem batch_execute_results:
  assumes "batch_execute I tx_id batch_ops s = ((rc, batch_results, error_msg), s')"
  shows "length batch_results = length batch_ops
    \<and> (\<forall>i < length batch_ops.
          batch_results ! i =
            (case op (batch_ops ! i) of
               OP_GET \<Rightarrow>
                 \<lparr>error = fst (fst (get_impl I tx_id (op_table_name (batch_ops ! i))
                            (op_key (batch_ops ! i))
                            (fold (interface_state I tx_id) (take i batch_ops) s))),
                  result_value = fst (snd (fst (get_impl I tx_id (op_table_name (batch_ops ! i))
                            (op_key (batch_ops ! i))
                            (fold (interface_state I tx_id) (take i batch_ops) s))))\<rparr>
             | OP_SET \<Rightarrow>
                 \<lparr>error = fst (fst (set_impl I tx_id (op_table_name (batch_ops ! i))
                            (op_key (batch_ops ! i)) (op_value (batch_ops ! i))
                            (fold (interface_state I tx_id) (take i batch_ops) s))),
                  result_value = []\<rparr>
             | OP_DEL \<Rightarrow>
                 \<lparr>error = fst (fst (del_impl I tx_id (op_table_name (batch_ops ! i))
                            (op_key (batch_ops ! i))
                            (fold (interface_state I tx_id) (take i batch_ops) s))),
                  result_value = []\<rparr>
             | OP_UNKNOWN \<Rightarrow> \<lparr>error = UNKNOWN_ERROR, result_value = []\<rparr>))
    \<and> s' = fold (interface_state I tx_id) batch_ops s
    \<and> (rc = SUCCESS \<longleftrightarrow> (\<forall>r \<in> set batch_results. error r = SUCCESS))
    \<and> (rc \<noteq> SUCCESS \<longrightarrow> rc = BATCH_NOT_FULLY_SUCCESS)"
proof -
  note r = batch_execute_run_ops [OF assms]
  have len: "length batch_results = length batch_ops"
    by (simp add: r(1) length_run_ops)
  have nth: "batch_results ! i = fst (fst (execute_op I tx_id (batch_ops ! i)
        (fold (interface_state I tx_id) (take i batch_ops) s)))" if "i < length batch_ops" for i
    using that by (simp add: r(1) nth_run_ops state_after_interface)
  have st: "s' = fold (interface_state I tx_id) batch_ops s"
    by (simp add: r(3) state_after_interface)
  have rc1: "rc = SUCCESS \<longleftrightarrow> (\<forall>r \<in> set batch_results. error r = SUCCESS)"
    using r(2) by (auto split: if_splits)
  have rc2: "rc \<noteq> SUCCESS \<longrightarrow> rc = BATCH_NOT_FULLY_SUCCESS"
    using r(2) by (auto split: if_splits)
  from len nth st rc1 rc2 show ?thesis
    by (simp only: execute_op_result) blast
qed


theorem batch_execute_results_witness:
  "batch_execute
     \<lparr>get_impl = (\<lambda>tx_id table_name k s. ((KEY_NOT_FOUND, [], ''Key not found''), s)),
      set_impl = (\<lambda>tx_id table_name k v s. ((SUCCESS, []), k # s)),
      del_impl = (\<lambda>tx_id table_name k s.
         (if k \<in> set s then ((SUCCESS, []), removeAll k s) else ((KEY_IS_LOCKED, ''locked''), s)))\<rparr>
     1
     [\<lparr>op = OP_SET, op_table_name = ''t'', op_key = ''a'', op_value = ''1''\<rparr>,
      \<lparr>op = OP_GET, op_table_name = ''t'', op_key = ''b'', op_value = []\<rparr>,
      \<lparr>op = OP_DEL, op_table_name = ''t'', op_key = ''c'', op_value = []\<rparr>,
      \<lparr>op = OP_DEL, op_table_name = ''t'', op_key = ''a'', op_value = []\<rparr>]
     []
   = ((BATCH_NOT_FULLY_SUCCESS,
       [\<lparr>error = SUCCESS, result_value = []\<rparr>,
        \<lparr>error = KEY_NOT_FOUND, result_value = []\<rparr>,
        \<lparr>error = KEY_IS_LOCKED, result_value = []\<rparr>,
        \<lparr>error = SUCCESS, result_value = []\<rparr>],
       Some ''op[1]: Key not found; op[2]: locked; ''), [])
   \<and> length [\<lparr>error = SUCCESS, result_value = []\<rparr>,
        \<lparr>error = KEY_NOT_FOUND, result_value = []\<rparr>,
        \<lparr>error = KEY_IS_LOCKED, result_value = []\<rparr>,
        \<lparr>error = SUCCESS, result_value = []\<rparr>] = 4
   \<and> \<not> (\<forall>r \<in> set [\<lparr>error = SUCCESS, result_value = []\<rparr>,
        \<lparr>error = KEY_NOT_FOUND, result_value = []\<rparr>,
        \<lparr>error = KEY_IS_LOCKED, result_value = []\<rparr>,
        \<lparr>error = SUCCESS, result_value = []\<rparr>]. error r = SUCCESS)"
  (is "?run = ?out \<and> ?len \<and> ?notall")
proof -
  have run: "?run = ?out"
    by code_simp
  from batch_execute_results [OF run] have "?len \<and> ?notall"
    by simp
  with run show ?thesis by simp
qed

section \<open>Properties of the framing\<close>

lemma base256_digits:
  "n = 256 * a + r0 \<Longrightarrow> a = 256 * b + r1 \<Longrightarrow> b = 256 * c + r2 \<Longrightarrow>
   r0 + 256 * r1 + 65536 * r2 + 16777216 * c = (n::nat)"
  by simp

lemma u32_split:
  assumes "n < 4294967296"
  shows "n mod 256 + 256 * (n div 256 mod 256) + 65536 * (n div 65536 mod 256)
        + 16777216 * (n div 16777216 mod 256) = (n::nat)"
proof -
  have g2: "n div 256 div 256 = n div 65536" by (simp add: div_mult2_eq [symmetric])
  have g3: "n div 65536 div 256 = n div 16777216" by (simp add: div_mult2_eq [symmetric])
  from assms have d: "n div 16777216 mod 256 = n div 16777216"
    by (simp add: less_mult_imp_div_less)
  have e1: "n = 256 * (n div 256) + n mod 256" by simp
  have e2: "n div 256 = 256 * (n div 256 div 256) + n div 256 mod 256" by simp
  have e3: "n div 256 div 256 = 256 * (n div 256 div 256 div 256) + n div 256 div 256 mod 256"
    by simp
  have "n mod 256 + 256 * (n div 256 mod 256) + 65536 * (n div 256 div 256 mod 256)
        + 16777216 * (n div 256 div 256 div 256) = n"
    by (rule base256_digits [OF e1 e2 e3])
  then show ?thesis unfolding g2 g3 d .
qed

lemma u32_of_bytes_u32_bytes: "u32_of_bytes (u32_bytes w) = w"
proof -
  have "unat w < 4294967296" using unsigned_less [of w, where 'a = nat] by simp
  then have sp: "unat w mod 256 + 256 * (unat w div 256 mod 256) + 65536 * (unat w div 65536 mod 256)
        + 16777216 * (unat w div 16777216 mod 256) = unat w"
    by (rule u32_split)
  have "u32_of_bytes (u32_bytes w) =
      of_nat (unat w mod 256 + 256 * (unat w div 256 mod 256) + 65536 * (unat w div 65536 mod 256)
        + 16777216 * (unat w div 16777216 mod 256))"
    by (simp add: u32_of_bytes_def u32_bytes_def del: of_nat_add of_nat_mult)
  also have "\<dots> = of_nat (unat w)" by (simp only: sp)
  finally show ?thesis by simp
qed

lemma length_u32_bytes: "length (u32_bytes w) = 4"
  by (simp add: u32_bytes_def)

lemma read_u32_append: "read_u32 (u32_bytes w @ rest) = Some (w, rest)"
  by (simp add: read_u32_def length_u32_bytes u32_of_bytes_u32_bytes)

lemma read_u32_short: "length ptr < 4 \<Longrightarrow> read_u32 ptr = None"
  by (simp add: read_u32_def)

lemma unat_of_nat_u32: "n < 2 ^ 32 \<Longrightarrow> unat (of_nat n :: 32 word) = n"
  by (simp add: unat_of_nat)


lemma write_column_fits:
  "fits_pair cv \<Longrightarrow>
   write_column cv = u32_bytes (of_nat (length (cv_column cv))) @ cv_column cv
     @ u32_bytes (of_nat (length (cv_value cv))) @ cv_value cv"
  by (simp add: write_column_def fits_pair_def Let_def unat_of_nat_u32)

lemma length_write_column:
  "fits_pair cv \<Longrightarrow> length (write_column cv) = 8 + length (cv_column cv) + length (cv_value cv)"
  by (simp add: write_column_fits length_u32_bytes)

lemma ColumnValue_eta: "\<lparr>cv_column = cv_column cv, cv_value = cv_value cv\<rparr> = cv"
  by (cases cv) simp

lemma parse_columns_pair:
  assumes "fits_pair cv"
  shows "parse_columns (Suc n) (write_column cv @ rest) acc = parse_columns n rest (acc @ [cv])"
proof -
  from assms have c: "unat (of_nat (length (cv_column cv)) :: 32 word) = length (cv_column cv)"
    and v: "unat (of_nat (length (cv_value cv)) :: 32 word) = length (cv_value cv)"
    by (simp_all add: fits_pair_def unat_of_nat_u32)
  show ?thesis
    by (simp add: write_column_fits [OF assms] read_u32_append c v ColumnValue_eta)
qed


lemma parse_columns_all:
  "\<forall>cv \<in> set cs. fits_pair cv \<Longrightarrow>
   parse_columns (length cs + k) (concat (map write_column cs) @ rest) acc
     = parse_columns k rest (acc @ cs)"
proof (induction cs arbitrary: acc)
  case Nil
  show ?case by simp
next
  case (Cons cv cs)
  then have f: "fits_pair cv" and fs: "\<forall>cv \<in> set cs. fits_pair cv" by simp_all
  have "parse_columns (length (cv # cs) + k) (concat (map write_column (cv # cs)) @ rest) acc
        = parse_columns (Suc (length cs + k)) (write_column cv @ (concat (map write_column cs) @ rest)) acc"
    by simp
  also have "\<dots> = parse_columns (length cs + k) (concat (map write_column cs) @ rest) (acc @ [cv])"
    by (rule parse_columns_pair [OF f])
  also have "\<dots> = parse_columns k rest ((acc @ [cv]) @ cs)"
    by (rule Cons.IH [OF fs])
  finally show ?case by simp
qed

lemma strictly_sorted_is_sorted:
  "sorted_wrt (\<lambda>a b. cv_column a < cv_column b) cs \<Longrightarrow> is_sorted cs"
  by (induction cs rule: is_sorted.induct) auto

lemma fits_frame_pairs: "fits_frame cs \<Longrightarrow> \<forall>cv \<in> set cs. fits_pair cv"
  by (simp add: fits_frame_def fits_pair_def)

lemma num_columns_positive:
  assumes "cs \<noteq> []" and "length cs < 2 ^ 32"
  shows "(of_nat (length cs) :: 32 word) > 0"
proof -
  from assms(2) have "unat (of_nat (length cs) :: 32 word) = length cs"
    by (rule unat_of_nat_u32)
  with assms(1) have "unat (of_nat (length cs) :: 32 word) \<noteq> 0" by simp
  then have "(of_nat (length cs) :: 32 word) \<noteq> 0" by (metis unat_0)
  then show ?thesis by (simp add: word_greater_zero_iff)
qed

lemma serialize_columns_fits:
  assumes "cs \<noteq> []" and "is_sorted cs" and "fits_frame cs"
  shows "serialize_columns cs = Inr (u32_bytes (of_nat (length cs)) @ concat (map write_column cs))"
proof -
  from assms(3) have "length cs < 2 ^ 32" by (simp add: fits_frame_def)
  with assms(1) have "(of_nat (length cs) :: 32 word) > 0" by (rule num_columns_positive)
  with assms(2) show ?thesis by (simp add: serialize_columns_def Let_def)
qed

lemma deserialize_frame:
  assumes "cs \<noteq> []" and "is_sorted cs" and "fits_frame cs"
  shows "deserialize_columns (u32_bytes (of_nat (length cs)) @ concat (map write_column cs)) = Inr cs"
proof -
  from assms(3) have n: "unat (of_nat (length cs) :: 32 word) = length cs"
    by (simp add: fits_frame_def unat_of_nat_u32)
  have ne: "u32_bytes (of_nat (length cs)) @ concat (map write_column cs) \<noteq> []"
    by (simp add: u32_bytes_def)
  from parse_columns_all [OF fits_frame_pairs [OF assms(3)], of 0 "[]" "[]"]
  have p: "parse_columns (length cs) (concat (map write_column cs)) [] = cs" by simp
  show ?thesis
    unfolding deserialize_columns_def using ne assms(2)
    by (simp only: if_False read_u32_append option.case prod.case n p Let_def) simp
qed

lemma is_sorted_iff: "is_sorted cs \<longleftrightarrow> sorted (map cv_column cs)"
proof (induction cs rule: is_sorted.induct)
  case 1
  show ?case by simp
next
  case (2 x)
  show ?case by simp
next
  case (3 x y rest)
  have "sorted (map cv_column (x # y # rest))
      \<longleftrightarrow> cv_column x \<le> cv_column y \<and> sorted (map cv_column (y # rest))"
    by (simp only: list.map sorted2)
  with 3 show ?case by (simp only: is_sorted.simps not_less)
qed

lemma is_sorted_take: "is_sorted cs \<Longrightarrow> is_sorted (take j cs)"
  by (simp add: is_sorted_iff take_map [symmetric] sorted_wrt_take)

lemma parse_columns_truncated_pair:
  assumes f: "fits_pair cv" and m: "m < length (write_column cv)"
  shows "parse_columns (Suc n) (take m (write_column cv)) acc = acc"
proof -
  let ?c = "cv_column cv" and ?v = "cv_value cv"
  let ?L1 = "u32_bytes (of_nat (length ?c))" and ?L2 = "u32_bytes (of_nat (length ?v))"
  have W: "write_column cv = ?L1 @ ?c @ ?L2 @ ?v" by (rule write_column_fits [OF f])
  from f have uc: "unat (of_nat (length ?c) :: 32 word) = length ?c"
    and uv: "unat (of_nat (length ?v) :: 32 word) = length ?v"
    by (simp_all add: fits_pair_def unat_of_nat_u32)
  from m have m': "m < 8 + length ?c + length ?v" by (simp add: length_write_column [OF f])
  consider (a) "m < 4" | (b) "4 \<le> m" "m < 4 + length ?c"
    | (c) "4 + length ?c \<le> m" "m < 8 + length ?c"
    | (d) "8 + length ?c \<le> m"
    by linarith
  then show ?thesis
  proof cases
    case a
    with m have "length (take m (write_column cv)) < 4" by simp
    then show ?thesis by (simp add: read_u32_short)
  next
    case b
    then have t: "take m (write_column cv) = ?L1 @ take (m - 4) ?c"
      by (simp add: W length_u32_bytes)
    from b have "m - 4 < length ?c" by linarith
    then show ?thesis by (simp add: t read_u32_append uc)
  next
    case c
    define k where "k = m - 4 - length ?c"
    from c have t: "take m (write_column cv) = ?L1 @ (?c @ take k ?L2)"
      by (simp add: W length_u32_bytes k_def)
    from c have "k < 4" by (simp add: k_def)
    then have "length (take k ?L2) < 4" by simp
    then have rn: "read_u32 (take k ?L2) = None" by (rule read_u32_short)
    show ?thesis by (simp add: t read_u32_append uc rn)
  next
    case d
    define k where "k = m - 8 - length ?c"
    from d have t: "take m (write_column cv) = ?L1 @ (?c @ (?L2 @ take k ?v))"
      by (simp add: W length_u32_bytes k_def)
    from d m' have "k < length ?v" by (simp add: k_def)
    then show ?thesis by (simp add: t read_u32_append uc uv)
  qed
qed


lemma mod_256_digit: "a < 256 \<Longrightarrow> (a + 256 * k) mod 256 = (a::nat)"
  by simp

lemma div_256_digit: "a < 256 \<Longrightarrow> (a + 256 * k) div 256 = (k::nat)"
  by simp

lemma digits256:
  assumes "a < 256" "b < 256" "c < 256"
  shows "(a + 256 * b + 65536 * c + 16777216 * d) mod 256 = (a::nat)"
    and "(a + 256 * b + 65536 * c + 16777216 * d) div 256 mod 256 = b"
    and "(a + 256 * b + 65536 * c + 16777216 * d) div 65536 mod 256 = c"
    and "(a + 256 * b + 65536 * c + 16777216 * d) div 16777216 = d"
proof -
  let ?n = "a + 256 * b + 65536 * c + 16777216 * d"
  have n: "?n = a + 256 * (b + 256 * (c + 256 * d))" by simp
  have e2: "?n div 65536 = ?n div 256 div 256" by (simp add: div_mult2_eq [symmetric])
  have e3: "?n div 16777216 = ?n div 256 div 256 div 256" by (simp add: div_mult2_eq [symmetric])
  have d1: "?n div 256 = b + 256 * (c + 256 * d)"
    by (simp only: n div_256_digit [OF assms(1)])
  have d2: "?n div 256 div 256 = c + 256 * d"
    by (simp only: d1 div_256_digit [OF assms(2)])
  have d3: "?n div 256 div 256 div 256 = d"
    by (simp only: d2 div_256_digit [OF assms(3)])
  show "?n mod 256 = a" by (simp only: n mod_256_digit [OF assms(1)])
  show "?n div 256 mod 256 = b" by (simp only: d1 mod_256_digit [OF assms(2)])
  show "?n div 65536 mod 256 = c" by (simp only: e2 d2 mod_256_digit [OF assms(3)])
  show "?n div 16777216 = d" by (simp only: e3 d3)
qed

lemma of_char_less_256: "(of_char c :: nat) < 256"
proof -
  have "(of_char c :: nat) mod 256 < 256" by simp
  then show ?thesis by (simp only: of_char_mod_256)
qed

lemma u32_bytes_u32_of_bytes: "u32_bytes (u32_of_bytes [a, b, c, d]) = [a, b, c, d]"
proof -
  let ?A = "of_char a :: nat" and ?B = "of_char b :: nat"
  let ?C = "of_char c :: nat" and ?D = "of_char d :: nat"
  let ?n = "?A + 256 * ?B + 65536 * ?C + 16777216 * ?D"
  have A: "?A < 256" and B: "?B < 256" and C: "?C < 256" and D: "?D < 256"
    by (rule of_char_less_256)+
  then have "?n < 4294967296" by linarith
  then have "?n < 2 ^ 32" by simp
  then have u: "unat (of_nat ?n :: 32 word) = ?n" by (rule unat_of_nat_u32)
  have w: "u32_of_bytes [a, b, c, d] = of_nat ?n"
    by (simp add: u32_of_bytes_def del: of_nat_add of_nat_mult)
  have c0: "char_of ?n = a"
    using digits256(1) [OF A B C, of ?D] by (metis char_of_mod_256 char_of_char)
  have c1: "char_of (?n div 256) = b"
    using digits256(2) [OF A B C, of ?D] by (metis char_of_mod_256 char_of_char)
  have c2: "char_of (?n div 65536) = c"
    using digits256(3) [OF A B C, of ?D] by (metis char_of_mod_256 char_of_char)
  have c3: "char_of (?n div 16777216) = d"
    using digits256(4) [OF A B C, of ?D] by (metis char_of_char)
  show ?thesis
    unfolding w u32_bytes_def u c0 c1 c2 c3 ..
qed

lemma read_u32_Some:
  assumes "read_u32 ptr = Some (w, p)"
  shows "ptr = u32_bytes w @ p"
proof -
  from assms have len: "4 \<le> length ptr" and w: "w = u32_of_bytes (take 4 ptr)" and p: "p = drop 4 ptr"
    by (auto simp: read_u32_def split: if_splits)
  from len obtain a b c d where t: "take 4 ptr = [a, b, c, d]"
    by (cases ptr; cases "tl ptr"; cases "tl (tl ptr)"; cases "tl (tl (tl ptr))") auto
  have "ptr = take 4 ptr @ drop 4 ptr" by simp
  then show ?thesis unfolding w p t u32_bytes_u32_of_bytes .
qed


lemma length_pairs:
  "\<forall>cv \<in> set cs. fits_pair cv \<Longrightarrow> length (concat (map write_column cs)) = pairs_size cs"
  by (induction cs) (simp_all add: pairs_size_def length_write_column)

lemma parse_columns_no_pair:
  assumes no: "\<forall>cv r. fits_pair cv \<longrightarrow> ptr \<noteq> write_column cv @ r"
  shows "parse_columns (Suc n) ptr acc = acc"
proof (cases "read_u32 ptr")
  case None
  then show ?thesis by simp
next
  case (Some x)
  obtain col_len ptr1 where x: "x = (col_len, ptr1)" by (cases x)
  from Some x have r1: "read_u32 ptr = Some (col_len, ptr1)" by simp
  then have p: "ptr = u32_bytes col_len @ ptr1" by (rule read_u32_Some)
  show ?thesis
  proof (cases "unat col_len > length ptr1")
    case True
    with r1 show ?thesis by simp
  next
    case c1: False
    show ?thesis
    proof (cases "read_u32 (drop (unat col_len) ptr1)")
      case None
      with r1 c1 show ?thesis by simp
    next
      case (Some y)
      obtain val_len ptr2 where y: "y = (val_len, ptr2)" by (cases y)
      from Some y have r2: "read_u32 (drop (unat col_len) ptr1) = Some (val_len, ptr2)" by simp
      then have p1: "drop (unat col_len) ptr1 = u32_bytes val_len @ ptr2" by (rule read_u32_Some)
      show ?thesis
      proof (cases "unat val_len > length ptr2")
        case True
        with r1 c1 r2 show ?thesis by simp
      next
        case c2: False
        let ?cv = "\<lparr>cv_column = take (unat col_len) ptr1, cv_value = take (unat val_len) ptr2\<rparr>"
        from c1 have lc: "length (cv_column ?cv) = unat col_len" by simp
        from c2 have lv: "length (cv_value ?cv) = unat val_len" by simp
        have "unat col_len < 2 ^ 32" "unat val_len < 2 ^ 32"
          using unsigned_less [of col_len, where 'a = nat] unsigned_less [of val_len, where 'a = nat]
          by simp_all
        with lc lv have fit: "fits_pair ?cv" by (simp only: fits_pair_def)
        have "write_column ?cv = u32_bytes col_len @ take (unat col_len) ptr1
            @ u32_bytes val_len @ take (unat val_len) ptr2"
          unfolding write_column_fits [OF fit] lc lv by simp
        moreover have "ptr1 = take (unat col_len) ptr1 @ drop (unat col_len) ptr1" by simp
        moreover have "ptr2 = take (unat val_len) ptr2 @ drop (unat val_len) ptr2" by simp
        ultimately have "ptr = write_column ?cv @ drop (unat val_len) ptr2"
          using p p1 by (metis append.assoc)
        with no fit show ?thesis by blast
      qed
    qed
  qed
qed

lemma parse_columns_exact:
  assumes fits: "\<forall>cv \<in> set cs. fits_pair cv"
    and stop: "k = 0 \<or> (\<forall>cv r. fits_pair cv \<longrightarrow> rest \<noteq> write_column cv @ r)"
  shows "parse_columns (length cs + k) (concat (map write_column cs) @ rest) acc = acc @ cs"
proof -
  have "parse_columns (length cs + k) (concat (map write_column cs) @ rest) acc
      = parse_columns k rest (acc @ cs)"
    by (rule parse_columns_all [OF fits])
  also have "\<dots> = acc @ cs"
  proof (cases k)
    case 0
    then show ?thesis by simp
  next
    case (Suc k')
    with stop have "\<forall>cv r. fits_pair cv \<longrightarrow> rest \<noteq> write_column cv @ r" by simp
    then show ?thesis unfolding Suc by (rule parse_columns_no_pair)
  qed
  finally show ?thesis .
qed

lemma frame_decomposition:
  "\<exists>cs rest. ptr = concat (map write_column cs) @ rest \<and> (\<forall>cv \<in> set cs. fits_pair cv)
     \<and> length cs \<le> n
     \<and> (length cs = n \<or> (\<forall>cv r. fits_pair cv \<longrightarrow> rest \<noteq> write_column cv @ r))"
proof (induction n arbitrary: ptr)
  case 0
  have "ptr = concat (map write_column []) @ ptr \<and> (\<forall>cv \<in> set []. fits_pair cv)
     \<and> length ([] :: ColumnValue list) \<le> 0 \<and> length ([] :: ColumnValue list) = 0"
    by simp
  then show ?case by blast
next
  case (Suc n)
  show ?case
  proof (cases "\<forall>cv r. fits_pair cv \<longrightarrow> ptr \<noteq> write_column cv @ r")
    case True
    then have "ptr = concat (map write_column []) @ ptr \<and> (\<forall>cv \<in> set []. fits_pair cv)
     \<and> length ([] :: ColumnValue list) \<le> Suc n
     \<and> (\<forall>cv r. fits_pair cv \<longrightarrow> ptr \<noteq> write_column cv @ r)"
      by simp
    then show ?thesis by blast
  next
    case False
    then obtain cv r where fit: "fits_pair cv" and p: "ptr = write_column cv @ r" by blast
    from Suc.IH [of r] obtain cs rest where r: "r = concat (map write_column cs) @ rest"
      and fs: "\<forall>cv \<in> set cs. fits_pair cv" and le: "length cs \<le> n"
      and st: "length cs = n \<or> (\<forall>cv r. fits_pair cv \<longrightarrow> rest \<noteq> write_column cv @ r)"
      by blast
    have "ptr = concat (map write_column (cv # cs)) @ rest \<and> (\<forall>cv \<in> set (cv # cs). fits_pair cv)
     \<and> length (cv # cs) \<le> Suc n
     \<and> (length (cv # cs) = Suc n \<or> (\<forall>cv r. fits_pair cv \<longrightarrow> rest \<noteq> write_column cv @ r))"
      using p r fit fs le st by simp
    then show ?thesis by blast
  qed
qed

lemma parse_columns_truncated_exact:
  "\<forall>cv \<in> set cs. fits_pair cv \<Longrightarrow> j < length cs \<Longrightarrow>
   pairs_size (take j cs) \<le> m \<Longrightarrow> m < pairs_size (take (Suc j) cs) \<Longrightarrow>
   parse_columns (length cs) (take m (concat (map write_column cs))) acc = acc @ take j cs"
proof (induction cs arbitrary: j m acc)
  case Nil
  then show ?case by simp
next
  case (Cons cv cs)
  then have f: "fits_pair cv" and fs: "\<forall>cv \<in> set cs. fits_pair cv" by simp_all
  let ?W = "write_column cv" and ?B = "concat (map write_column cs)"
  have lw: "length ?W = 8 + length (cv_column cv) + length (cv_value cv)"
    by (rule length_write_column [OF f])
  show ?case
  proof (cases j)
    case 0
    with Cons.prems(4) lw have m: "m < length ?W" by (simp add: pairs_size_def)
    then have eq: "take m (concat (map write_column (cv # cs))) = take m ?W" by simp
    have "parse_columns (length (cv # cs)) (take m (concat (map write_column (cv # cs)))) acc = acc"
      unfolding eq using parse_columns_truncated_pair [OF f m, of "length cs" acc]
      by (simp del: parse_columns.simps)
    with 0 show ?thesis by simp
  next
    case (Suc j')
    with Cons.prems(2) have j': "j' < length cs" by simp
    from Suc Cons.prems(3) lw have ge: "length ?W \<le> m" and lo: "pairs_size (take j' cs) \<le> m - length ?W"
      by (simp_all add: pairs_size_def)
    from Suc Cons.prems(4) lw ge have hi: "m - length ?W < pairs_size (take (Suc j') cs)"
      by (simp add: pairs_size_def)
    from ge have eq: "take m (concat (map write_column (cv # cs))) = ?W @ take (m - length ?W) ?B"
      by simp
    have "parse_columns (length (cv # cs)) (take m (concat (map write_column (cv # cs)))) acc
          = parse_columns (length cs) (take (m - length ?W) ?B) (acc @ [cv])"
      unfolding eq by (simp add: parse_columns_pair [OF f] del: parse_columns.simps)
    also have "\<dots> = (acc @ [cv]) @ take j' cs"
      by (rule Cons.IH [OF fs j' lo hi])
    finally show ?thesis using Suc by simp
  qed
qed

lemma deserialize_columns_decomposed:
  assumes fits: "\<forall>cv \<in> set cs. fits_pair cv" and le: "length cs \<le> unat N"
    and stop: "length cs = unat N \<or> (\<forall>cv r. fits_pair cv \<longrightarrow> rest \<noteq> write_column cv @ r)"
  shows "deserialize_columns (u32_bytes N @ concat (map write_column cs) @ rest)
     = (if cs \<noteq> [] \<and> \<not> is_sorted cs
        then Inl (Runtime_error ''Columns Must Be sorted before deserialization'')
        else Inr cs)"
proof -
  define k where "k = unat N - length cs"
  with le have N: "unat N = length cs + k" by simp
  from stop N have "k = 0 \<or> (\<forall>cv r. fits_pair cv \<longrightarrow> rest \<noteq> write_column cv @ r)" by auto
  from parse_columns_exact [OF fits this, of "[]"]
  have p: "parse_columns (unat N) (concat (map write_column cs) @ rest) [] = cs"
    unfolding N by simp
  have ne: "u32_bytes N @ concat (map write_column cs) @ rest \<noteq> []"
    by (simp add: u32_bytes_def)
  show ?thesis
    unfolding deserialize_columns_def using ne
    by (simp only: if_False read_u32_append option.case prod.case p Let_def)
qed

lemma deserialize_columns_result:
  assumes r: "deserialize_columns data = Inr result"
  shows "is_sorted result \<and> (result = [] \<or> 4 + pairs_size result \<le> length data)"
proof (cases "4 \<le> length data")
  case False
  with r have "result = []"
    by (auto simp: deserialize_columns_def read_u32_def split: if_splits)
  then show ?thesis by simp
next
  case True
  then have "read_u32 data = Some (u32_of_bytes (take 4 data), drop 4 data)"
    by (simp add: read_u32_def)
  then have d: "data = u32_bytes (u32_of_bytes (take 4 data)) @ drop 4 data"
    by (rule read_u32_Some)
  let ?N = "u32_of_bytes (take 4 data)"
  from frame_decomposition [of "drop 4 data" "unat ?N"]
  obtain cs' rest' where b: "drop 4 data = concat (map write_column cs') @ rest'"
    and f: "\<forall>cv \<in> set cs'. fits_pair cv" and le: "length cs' \<le> unat ?N"
    and st: "length cs' = unat ?N
         \<or> (\<forall>cv r. fits_pair cv \<longrightarrow> rest' \<noteq> write_column cv @ r)"
    by blast
  from d b have d': "data = u32_bytes ?N @ concat (map write_column cs') @ rest'" by simp
  from deserialize_columns_decomposed [OF f le st] d'
  have "deserialize_columns data = (if cs' \<noteq> [] \<and> \<not> is_sorted cs'
      then Inl (Runtime_error ''Columns Must Be sorted before deserialization'')
      else Inr cs')"
    by simp
  with r have res: "result = cs'" and so: "cs' = [] \<or> is_sorted cs'"
    by (auto split: if_splits)
  from so have s: "is_sorted cs'" by auto
  have "length data = 4 + length (concat (map write_column cs')) + length rest'"
    by (subst d') (simp add: length_u32_bytes)
  then have "4 + pairs_size cs' \<le> length data"
    by (simp add: length_pairs [OF f])
  with res s show ?thesis by simp
qed

lemma u32_bytes_0: "u32_bytes 0 = [CHR 0x00, CHR 0x00, CHR 0x00, CHR 0x00]"
  by (simp add: u32_bytes_def char_of_def bit_0)

lemma u32_bytes_1: "u32_bytes 1 = [CHR 0x01, CHR 0x00, CHR 0x00, CHR 0x00]"
  by (simp add: u32_bytes_def char_of_def bit_0)

lemma u32_bytes_2: "u32_bytes 2 = [CHR 0x02, CHR 0x00, CHR 0x00, CHR 0x00]"
  by (simp add: u32_bytes_def char_of_def bit_0)

text \<open>
  C6, as the claim states it. A column of \<open>2 ^ 32\<close> bytes is a sorted sequence of one
  pair with distinct columns, but its length does not fit the \<^verbatim>\<open>uint32_t\<close> field: the
  length is written as 0 and no byte of the column follows, so the frame is that of the
  empty column, and deserializing it gives the empty column.
\<close>

theorem serialize_deserialize_roundtrip_counterexample:
  "serialize_columns [\<lparr>cv_column = replicate (2 ^ 32) CHR ''a'', cv_value = ''v''\<rparr>]
     = Inr [CHR 0x01, CHR 0x00, CHR 0x00, CHR 0x00, CHR 0x00, CHR 0x00, CHR 0x00, CHR 0x00,
            CHR 0x01, CHR 0x00, CHR 0x00, CHR 0x00, CHR ''v'']
   \<and> deserialize_columns
       [CHR 0x01, CHR 0x00, CHR 0x00, CHR 0x00, CHR 0x00, CHR 0x00, CHR 0x00, CHR 0x00,
        CHR 0x01, CHR 0x00, CHR 0x00, CHR 0x00, CHR ''v'']
     = Inr [\<lparr>cv_column = [], cv_value = ''v''\<rparr>]"
proof
  have z: "(of_nat (length (replicate (2 ^ 32) CHR ''a'')) :: 32 word) = 0" by simp
  have w: "write_column \<lparr>cv_column = replicate (2 ^ 32) CHR ''a'', cv_value = ''v''\<rparr>
      = u32_bytes 0 @ u32_bytes 1 @ ''v''"
    unfolding write_column_def Let_def ColumnValue.simps z by simp
  show "serialize_columns [\<lparr>cv_column = replicate (2 ^ 32) CHR ''a'', cv_value = ''v''\<rparr>]
     = Inr [CHR 0x01, CHR 0x00, CHR 0x00, CHR 0x00, CHR 0x00, CHR 0x00, CHR 0x00, CHR 0x00,
            CHR 0x01, CHR 0x00, CHR 0x00, CHR 0x00, CHR ''v'']"
    unfolding serialize_columns_def Let_def list.map concat.simps w
    by (simp add: u32_bytes_0 u32_bytes_1)
next
  let ?cs = "[\<lparr>cv_column = [], cv_value = ''v''\<rparr>]"
  have "fits_frame ?cs" by (simp add: fits_frame_def)
  then have "deserialize_columns (u32_bytes (of_nat (length ?cs)) @ concat (map write_column ?cs))
      = Inr ?cs"
    by (intro deserialize_frame) simp_all
  then show "deserialize_columns
       [CHR 0x01, CHR 0x00, CHR 0x00, CHR 0x00, CHR 0x00, CHR 0x00, CHR 0x00, CHR 0x00,
        CHR 0x01, CHR 0x00, CHR 0x00, CHR 0x00, CHR ''v'']
     = Inr [\<lparr>cv_column = [], cv_value = ''v''\<rparr>]"
    by (simp add: write_column_def u32_bytes_0 u32_bytes_1)
qed

text \<open>
  C6, amended. For every sequence \<open>S\<close> of at least one pair, sorted by column with
  distinct columns, and within the bounds of the frame format (fewer than \<open>2 ^ 32\<close>
  pairs, every column and value shorter than \<open>2 ^ 32\<close> bytes), serializing succeeds and
  deserializing the frame gives \<open>S\<close> back: the same pairs in the same order.
\<close>

theorem serialize_deserialize_roundtrip:
  assumes "S \<noteq> []" and "sorted_wrt (\<lambda>a b. cv_column a < cv_column b) S" and "fits_frame S"
  shows "\<exists>frame. serialize_columns S = Inr frame \<and> deserialize_columns frame = Inr S"
proof -
  from assms(2) have "is_sorted S" by (rule strictly_sorted_is_sorted)
  with assms(1,3) show ?thesis
    by (simp add: serialize_columns_fits deserialize_frame)
qed


theorem serialize_deserialize_roundtrip_witness:
  "[\<lparr>cv_column = ''age'', cv_value = ''30''\<rparr>, \<lparr>cv_column = ''name'', cv_value = ''alice''\<rparr>] \<noteq> []
   \<and> sorted_wrt (\<lambda>a b. cv_column a < cv_column b)
        [\<lparr>cv_column = ''age'', cv_value = ''30''\<rparr>, \<lparr>cv_column = ''name'', cv_value = ''alice''\<rparr>]
   \<and> fits_frame [\<lparr>cv_column = ''age'', cv_value = ''30''\<rparr>, \<lparr>cv_column = ''name'', cv_value = ''alice''\<rparr>]
   \<and> (\<exists>frame.
         serialize_columns
           [\<lparr>cv_column = ''age'', cv_value = ''30''\<rparr>, \<lparr>cv_column = ''name'', cv_value = ''alice''\<rparr>]
           = Inr frame
         \<and> deserialize_columns frame
           = Inr [\<lparr>cv_column = ''age'', cv_value = ''30''\<rparr>, \<lparr>cv_column = ''name'', cv_value = ''alice''\<rparr>])"
  (is "?S \<noteq> [] \<and> ?sorted \<and> ?fits \<and> ?round")
proof -
  have n: "?S \<noteq> []" by simp
  have s: "?sorted" by simp
  have f: "?fits" by (simp add: fits_frame_def)
  from serialize_deserialize_roundtrip [OF n s f] n s f show ?thesis by blast
qed

text \<open>
  C8, as the claim states it. A frame that declares two columns and holds one is not
  rejected: the deserializer returns the one pair it could read, without an error.
\<close>

theorem deserialize_columns_partial_counterexample:
  "deserialize_columns
     [CHR 0x02, CHR 0x00, CHR 0x00, CHR 0x00,
      CHR 0x01, CHR 0x00, CHR 0x00, CHR 0x00, CHR ''a'',
      CHR 0x01, CHR 0x00, CHR 0x00, CHR 0x00, CHR ''1'']
   = Inr [\<lparr>cv_column = ''a'', cv_value = ''1''\<rparr>]"
proof -
  let ?cv = "\<lparr>cv_column = ''a'', cv_value = ''1''\<rparr>"
  have fit: "fits_pair ?cv" by (simp add: fits_pair_def)
  have F: "[CHR 0x02, CHR 0x00, CHR 0x00, CHR 0x00,
      CHR 0x01, CHR 0x00, CHR 0x00, CHR 0x00, CHR ''a'',
      CHR 0x01, CHR 0x00, CHR 0x00, CHR 0x00, CHR ''1''] = u32_bytes 2 @ write_column ?cv @ []"
    by (simp add: write_column_fits [OF fit] u32_bytes_1 u32_bytes_2)
  have u2: "unat (2 :: 32 word) = Suc (Suc 0)" by simp
  have "parse_columns (Suc (Suc 0)) (write_column ?cv @ []) [] = parse_columns (Suc 0) [] ([] @ [?cv])"
    by (rule parse_columns_pair [OF fit])
  also have "\<dots> = [?cv]" by (simp add: read_u32_def)
  finally have p: "parse_columns (Suc (Suc 0)) (write_column ?cv @ []) [] = [?cv]" .
  have ne: "u32_bytes 2 @ write_column ?cv @ [] \<noteq> []" by (simp add: u32_bytes_2)
  show ?thesis
    unfolding F deserialize_columns_def using ne
    by (simp only: if_False read_u32_append option.case prod.case u2 p Let_def) simp
qed

text \<open>
  C8, amended. The deserializer checks the remaining length before every read and stops
  at the first field that does not fit; a short frame is no error, and what it returns
  is exactly the pairs that the input holds completely. It rejects the empty input, and
  an input of one to three bytes gives no pair. An input that consists of a count \<open>N\<close>,
  the complete pairs \<open>cs\<close> (at most \<open>N\<close> of them) and a remainder, where either all
  \<open>N\<close> pairs are there or the remainder does not begin with another complete pair,
  gives exactly \<open>cs\<close>, or the error for unsorted columns when \<open>cs\<close> is not sorted;
  every input of four bytes or more is of this form. So every list returned is sorted,
  and its pairs lie within the input: the count and the pairs together take no more
  bytes than the input has. In particular the frame of a sequence \<open>S\<close> within the bounds
  of the format, cut to \<open>n\<close> bytes, deserializes without error to exactly the first
  \<open>j\<close> pairs of \<open>S\<close>, where \<open>j\<close> is the number of pairs that the \<open>n\<close> bytes hold
  completely.
\<close>

theorem deserialize_columns_short_frame:
  "deserialize_columns [] = Inl (Runtime_error ''Data is empty'')
   \<and> (0 < length short \<and> length short < 4 \<longrightarrow> deserialize_columns short = Inr [])
   \<and> ((\<forall>cv \<in> set cs. fits_pair cv) \<and> length cs \<le> unat N
        \<and> (length cs = unat N \<or> (\<forall>cv r. fits_pair cv \<longrightarrow> rest \<noteq> write_column cv @ r)) \<longrightarrow>
        deserialize_columns (u32_bytes N @ concat (map write_column cs) @ rest)
          = (if cs \<noteq> [] \<and> \<not> is_sorted cs
             then Inl (Runtime_error ''Columns Must Be sorted before deserialization'')
             else Inr cs))
   \<and> (4 \<le> length data \<longrightarrow>
        (\<exists>N cs rest. data = u32_bytes N @ concat (map write_column cs) @ rest
           \<and> (\<forall>cv \<in> set cs. fits_pair cv) \<and> length cs \<le> unat N
           \<and> (length cs = unat N \<or> (\<forall>cv r. fits_pair cv \<longrightarrow> rest \<noteq> write_column cv @ r))))
   \<and> (deserialize_columns data = Inr result \<longrightarrow>
        is_sorted result \<and> (result = [] \<or> 4 + pairs_size result \<le> length data))
   \<and> (fits_frame S \<and> serialize_columns S = Inr frame \<and> j < length S
        \<and> 4 + pairs_size (take j S) \<le> n \<and> n < 4 + pairs_size (take (Suc j) S) \<longrightarrow>
        deserialize_columns (take n frame) = Inr (take j S))"
proof (intro conjI impI)
  show "deserialize_columns [] = Inl (Runtime_error ''Data is empty'')"
    by (simp add: deserialize_columns_def)
next
  assume "0 < length short \<and> length short < 4"
  then have "short \<noteq> []" and "read_u32 short = None" by (auto simp: read_u32_short)
  then show "deserialize_columns short = Inr []" by (simp add: deserialize_columns_def)
next
  assume "(\<forall>cv \<in> set cs. fits_pair cv) \<and> length cs \<le> unat N
        \<and> (length cs = unat N \<or> (\<forall>cv r. fits_pair cv \<longrightarrow> rest \<noteq> write_column cv @ r))"
  then show "deserialize_columns (u32_bytes N @ concat (map write_column cs) @ rest)
          = (if cs \<noteq> [] \<and> \<not> is_sorted cs
             then Inl (Runtime_error ''Columns Must Be sorted before deserialization'')
             else Inr cs)"
    by (intro deserialize_columns_decomposed) blast+
next
  assume len: "4 \<le> length data"
  then have "read_u32 data = Some (u32_of_bytes (take 4 data), drop 4 data)"
    by (simp add: read_u32_def)
  then have d: "data = u32_bytes (u32_of_bytes (take 4 data)) @ drop 4 data"
    by (rule read_u32_Some)
  from frame_decomposition [of "drop 4 data" "unat (u32_of_bytes (take 4 data))"]
  obtain cs' rest' where "drop 4 data = concat (map write_column cs') @ rest'"
    and "\<forall>cv \<in> set cs'. fits_pair cv" and "length cs' \<le> unat (u32_of_bytes (take 4 data))"
    and "length cs' = unat (u32_of_bytes (take 4 data))
         \<or> (\<forall>cv r. fits_pair cv \<longrightarrow> rest' \<noteq> write_column cv @ r)"
    by blast
  with d show "\<exists>N cs rest. data = u32_bytes N @ concat (map write_column cs) @ rest
           \<and> (\<forall>cv \<in> set cs. fits_pair cv) \<and> length cs \<le> unat N
           \<and> (length cs = unat N \<or> (\<forall>cv r. fits_pair cv \<longrightarrow> rest \<noteq> write_column cv @ r))"
    by metis
next
  assume "deserialize_columns data = Inr result"
  then show "is_sorted result" by (simp add: deserialize_columns_result)
next
  assume "deserialize_columns data = Inr result"
  then show "result = [] \<or> 4 + pairs_size result \<le> length data"
    using deserialize_columns_result by blast
next
  assume h: "fits_frame S \<and> serialize_columns S = Inr frame \<and> j < length S
        \<and> 4 + pairs_size (take j S) \<le> n \<and> n < 4 + pairs_size (take (Suc j) S)"
  then have fits: "fits_frame S" and ser: "serialize_columns S = Inr frame"
    and j: "j < length S" and lo: "pairs_size (take j S) \<le> n - 4" and n4: "4 \<le> n"
    and hi: "n - 4 < pairs_size (take (Suc j) S)" by auto
  let ?N = "of_nat (length S) :: 32 word" and ?B = "concat (map write_column S)"
  from ser have sorted: "is_sorted S" and frame: "frame = u32_bytes ?N @ ?B"
    by (auto simp: serialize_columns_def Let_def split: if_splits)
  from fits have N: "unat ?N = length S" by (simp add: fits_frame_def unat_of_nat_u32)
  from n4 have t: "take n frame = u32_bytes ?N @ take (n - 4) ?B"
    by (simp add: frame length_u32_bytes)
  from parse_columns_truncated_exact [OF fits_frame_pairs [OF fits] j lo hi, of "[]"]
  have p: "parse_columns (length S) (take (n - 4) ?B) [] = take j S" by simp
  have tne: "u32_bytes ?N @ take (n - 4) ?B \<noteq> []" by (simp add: u32_bytes_def)
  from sorted have "is_sorted (take j S)" by (rule is_sorted_take)
  then show "deserialize_columns (take n frame) = Inr (take j S)"
    unfolding t deserialize_columns_def using tne
    by (simp only: if_False read_u32_append option.case prod.case N p Let_def) simp
qed


theorem deserialize_columns_short_frame_witness:
  "(0 < length ''x'' \<and> length ''x'' < 4) \<and> deserialize_columns ''x'' = Inr []
   \<and> (fits_pair \<lparr>cv_column = ''a'', cv_value = ''1''\<rparr> \<and> length [\<lparr>cv_column = ''a'', cv_value = ''1''\<rparr>] \<le> unat (2 :: 32 word))
   \<and> u32_bytes 2 @ concat (map write_column [\<lparr>cv_column = ''a'', cv_value = ''1''\<rparr>]) @ [] = [CHR 0x02, CHR 0x00, CHR 0x00, CHR 0x00,
      CHR 0x01, CHR 0x00, CHR 0x00, CHR 0x00, CHR ''a'',
      CHR 0x01, CHR 0x00, CHR 0x00, CHR 0x00, CHR ''1'']
   \<and> deserialize_columns [CHR 0x02, CHR 0x00, CHR 0x00, CHR 0x00,
      CHR 0x01, CHR 0x00, CHR 0x00, CHR 0x00, CHR ''a'',
      CHR 0x01, CHR 0x00, CHR 0x00, CHR 0x00, CHR ''1''] = Inr [\<lparr>cv_column = ''a'', cv_value = ''1''\<rparr>]
   \<and> is_sorted [\<lparr>cv_column = ''a'', cv_value = ''1''\<rparr>] \<and> 4 + pairs_size [\<lparr>cv_column = ''a'', cv_value = ''1''\<rparr>] \<le> length [CHR 0x02, CHR 0x00, CHR 0x00, CHR 0x00,
      CHR 0x01, CHR 0x00, CHR 0x00, CHR 0x00, CHR ''a'',
      CHR 0x01, CHR 0x00, CHR 0x00, CHR 0x00, CHR ''1'']
   \<and> (fits_frame [\<lparr>cv_column = ''a'', cv_value = ''1''\<rparr>, \<lparr>cv_column = ''b'', cv_value = ''2''\<rparr>] \<and> serialize_columns [\<lparr>cv_column = ''a'', cv_value = ''1''\<rparr>, \<lparr>cv_column = ''b'', cv_value = ''2''\<rparr>] = Inr [CHR 0x02, CHR 0x00, CHR 0x00, CHR 0x00,
      CHR 0x01, CHR 0x00, CHR 0x00, CHR 0x00, CHR ''a'',
      CHR 0x01, CHR 0x00, CHR 0x00, CHR 0x00, CHR ''1'',
      CHR 0x01, CHR 0x00, CHR 0x00, CHR 0x00, CHR ''b'',
      CHR 0x01, CHR 0x00, CHR 0x00, CHR 0x00, CHR ''2''] \<and> 1 < length [\<lparr>cv_column = ''a'', cv_value = ''1''\<rparr>, \<lparr>cv_column = ''b'', cv_value = ''2''\<rparr>]
        \<and> 4 + pairs_size (take 1 [\<lparr>cv_column = ''a'', cv_value = ''1''\<rparr>, \<lparr>cv_column = ''b'', cv_value = ''2''\<rparr>]) \<le> 14 \<and> 14 < 4 + pairs_size (take (Suc 1) [\<lparr>cv_column = ''a'', cv_value = ''1''\<rparr>, \<lparr>cv_column = ''b'', cv_value = ''2''\<rparr>]))
   \<and> deserialize_columns (take 14 [CHR 0x02, CHR 0x00, CHR 0x00, CHR 0x00,
      CHR 0x01, CHR 0x00, CHR 0x00, CHR 0x00, CHR ''a'',
      CHR 0x01, CHR 0x00, CHR 0x00, CHR 0x00, CHR ''1'',
      CHR 0x01, CHR 0x00, CHR 0x00, CHR 0x00, CHR ''b'',
      CHR 0x01, CHR 0x00, CHR 0x00, CHR 0x00, CHR ''2'']) = Inr (take 1 [\<lparr>cv_column = ''a'', cv_value = ''1''\<rparr>, \<lparr>cv_column = ''b'', cv_value = ''2''\<rparr>])"
  (is "?h1 \<and> ?c1 \<and> ?h2 \<and> ?eq \<and> ?c2 \<and> ?c3 \<and> ?c4 \<and> ?h5 \<and> ?c5")
proof -
  have fp: "fits_pair \<lparr>cv_column = ''a'', cv_value = ''1''\<rparr>" "fits_pair \<lparr>cv_column = ''b'', cv_value = ''2''\<rparr>" by (simp_all add: fits_pair_def)
  have h1: ?h1 by simp
  have h2: ?h2 by (simp add: fp)
  have h2': "(\<forall>cv \<in> set [\<lparr>cv_column = ''a'', cv_value = ''1''\<rparr>]. fits_pair cv) \<and> length [\<lparr>cv_column = ''a'', cv_value = ''1''\<rparr>] \<le> unat (2 :: 32 word)
        \<and> (length [\<lparr>cv_column = ''a'', cv_value = ''1''\<rparr>] = unat (2 :: 32 word)
             \<or> (\<forall>cv r. fits_pair cv \<longrightarrow> [] \<noteq> write_column cv @ r))"
    by (simp add: fp write_column_def Let_def u32_bytes_def)
  have eq: ?eq by (simp add: write_column_fits [OF fp(1)] u32_bytes_1 u32_bytes_2)
  have h5: ?h5
    using fp by (simp add: fits_frame_def serialize_columns_def Let_def write_column_fits
        u32_bytes_1 u32_bytes_2 pairs_size_def)
  note t = deserialize_columns_short_frame [where short = "''x''" and cs = "[\<lparr>cv_column = ''a'', cv_value = ''1''\<rparr>]" and N = 2
      and rest = "[]" and data = "[CHR 0x02, CHR 0x00, CHR 0x00, CHR 0x00,
      CHR 0x01, CHR 0x00, CHR 0x00, CHR 0x00, CHR ''a'',
      CHR 0x01, CHR 0x00, CHR 0x00, CHR 0x00, CHR ''1'']" and result = "[\<lparr>cv_column = ''a'', cv_value = ''1''\<rparr>]"
      and S = "[\<lparr>cv_column = ''a'', cv_value = ''1''\<rparr>, \<lparr>cv_column = ''b'', cv_value = ''2''\<rparr>]" and frame = "[CHR 0x02, CHR 0x00, CHR 0x00, CHR 0x00,
      CHR 0x01, CHR 0x00, CHR 0x00, CHR 0x00, CHR ''a'',
      CHR 0x01, CHR 0x00, CHR 0x00, CHR 0x00, CHR ''1'',
      CHR 0x01, CHR 0x00, CHR 0x00, CHR 0x00, CHR ''b'',
      CHR 0x01, CHR 0x00, CHR 0x00, CHR 0x00, CHR ''2'']" and j = 1 and n = 14]
  from t h1 have c1: ?c1 by blast
  from t h2' have "deserialize_columns (u32_bytes 2 @ concat (map write_column [\<lparr>cv_column = ''a'', cv_value = ''1''\<rparr>]) @ [])
      = (if [\<lparr>cv_column = ''a'', cv_value = ''1''\<rparr>] \<noteq> [] \<and> \<not> is_sorted [\<lparr>cv_column = ''a'', cv_value = ''1''\<rparr>]
         then Inl (Runtime_error ''Columns Must Be sorted before deserialization'')
         else Inr [\<lparr>cv_column = ''a'', cv_value = ''1''\<rparr>])"
    by blast
  then have c2: ?c2 unfolding eq by simp
  from t c2 have c34: "?c3 \<and> ?c4" by simp
  from t h5 have c5: ?c5 by blast
  from h1 c1 h2 eq c2 c34 h5 c5 show ?thesis by blast
qed


section \<open>Properties of the column adapter\<close>

lemma get_all_columns_composite_invalid_argument:
  "get_all_columns True tx_id table_name key g
     = Some (Inl (Invalid_argument ''Key or column contains separator or is empty''), g)"
  by (simp add: get_all_columns_def make_composite_key_def)

text \<open>
  C7. Under the composite-key method this adapter builds the start of the scan range
  with \<open>make_composite_key key ""\<close>, which rejects the empty column: \<open>get_all_columns\<close>
  throws before it scans, whatever the key and the state. After the column \<open>name\<close> of
  \<open>vertex:1\<close> has been stored through the adapter, \<open>get_all_columns\<close> for \<open>vertex:1\<close>
  throws \<^verbatim>\<open>std::invalid_argument\<close> and returns no column.
\<close>

theorem get_all_columns_composite_throws:
  "fst (set_column_composite 0 ''composite_test'' ''vertex:1'' ''name'' ''Alice''
          (Some (snd (create_table ''composite_test'' ''range'' init_state)))) = Inr (Inr ())
   \<and> get_all_columns True 0 ''composite_test'' ''vertex:1'' st_composite
       = Some (Inl (Invalid_argument ''Key or column contains separator or is empty''),
               st_composite)"
proof
  show "fst (set_column_composite 0 ''composite_test'' ''vertex:1'' ''name'' ''Alice''
          (Some (snd (create_table ''composite_test'' ''range'' init_state)))) = Inr (Inr ())"
    by (simp add: set_column_composite_def make_composite_key_def KEY_COLUMN_SEPARATOR_def
        kvt_set_def set_kvt_def create_table_def init_state_def Let_def)
next
  show "get_all_columns True 0 ''composite_test'' ''vertex:1'' st_composite
       = Some (Inl (Invalid_argument ''Key or column contains separator or is empty''),
               st_composite)"
    by (rule get_all_columns_composite_invalid_argument)
qed

section \<open>Properties of the optimistic commit\<close>

text \<open>
  C9. Under the optimistic engine, when some key in the read-set of a live transaction
  (or lifted into its write-set) has a current entry whose version differs from the
  version the transaction observed, or a key it observed as absent has a current entry,
  \<open>commit\<close> fails with \<open>TRANSACTION_HAS_STALE_DATA\<close>, leaves every table as it was (no
  write or deletion is installed) and discards the context of the transaction.
\<close>

theorem occ_commit_stale:
  assumes "transactions s tx_id = Some txn"
    and "(table_key, observed) \<in> set (txn_read_set txn) \<union> set (txn_write_set txn)"
    and "current_entry s table_key = Some cur"
    and "absent observed \<or> entry_metadata cur \<noteq> entry_metadata observed"
  shows "fst (occ_commit_transaction absent tx_id s) = TRANSACTION_HAS_STALE_DATA
    \<and> tables (snd (occ_commit_transaction absent tx_id s)) = tables s
    \<and> transactions (snd (occ_commit_transaction absent tx_id s)) = (transactions s)(tx_id := None)"
proof -
  from assms(3,4) have "\<not> still_valid absent s (table_key, observed)"
    by (auto simp: still_valid_def)
  with assms(2) have "\<not> validate absent s txn"
    by (auto simp: validate_def list_all_iff)
  with assms(1) show ?thesis
    by (simp add: occ_commit_transaction_def)
qed

theorem occ_commit_stale_witness:
  "transactions st_conflict 2
     = Some \<lparr>txn_id = 2, txn_read_set = [],
             txn_write_set = [(''t'' @ [CHR 0x00] @ ''k'', \<lparr>entry_data = ''b'', entry_metadata = 1\<rparr>)],
             txn_delete_set = []\<rparr>
   \<and> current_entry st_conflict (''t'' @ [CHR 0x00] @ ''k'')
     = Some \<lparr>entry_data = ''a'', entry_metadata = 2\<rparr>
   \<and> fst (occ_commit_transaction (\<lambda>e. entry_metadata e = 0) 2 st_conflict)
     = TRANSACTION_HAS_STALE_DATA
   \<and> tables (snd (occ_commit_transaction (\<lambda>e. entry_metadata e = 0) 2 st_conflict))
     = tables st_conflict
   \<and> transactions (snd (occ_commit_transaction (\<lambda>e. entry_metadata e = 0) 2 st_conflict)) 2
     = None"
proof -
  let ?txn = "\<lparr>txn_id = 2, txn_read_set = [],
             txn_write_set = [(''t'' @ [CHR 0x00] @ ''k'', \<lparr>entry_data = ''b'', entry_metadata = 1\<rparr>)],
             txn_delete_set = []\<rparr>"
  let ?observed = "\<lparr>entry_data = ''b'', entry_metadata = 1\<rparr>"
  let ?cur = "\<lparr>entry_data = ''a'', entry_metadata = 2\<rparr>"
  have t: "transactions st_conflict 2 = Some ?txn"
    by (simp add: st_conflict_def)
  have m: "(''t'' @ [CHR 0x00] @ ''k'', ?observed) \<in> set (txn_read_set ?txn) \<union> set (txn_write_set ?txn)"
    by simp
  have c: "current_entry st_conflict (''t'' @ [CHR 0x00] @ ''k'') = Some ?cur"
    by (simp add: current_entry_def parse_table_key_def st_conflict_def)
  have d: "entry_metadata ?observed = 0 \<or> entry_metadata ?cur \<noteq> entry_metadata ?observed"
    by simp
  from occ_commit_stale [of st_conflict 2 ?txn _ ?observed ?cur "\<lambda>e. entry_metadata e = 0", OF t m c d] t c
  show ?thesis by simp
qed

end
